theory Spec2Isabelle
  imports Complex_Main
begin

section \<open>JavaScript values read from the artifacts\<close>

text \<open>
  The artifacts are JSON objects whose fields the page reads without a schema. A field is
  \<open>undefined\<close> (missing), \<open>null\<close>, a number or a string. JavaScript numbers are IEEE doubles;
  the finite ones are modelled as reals (rounding is not modelled), and \<open>NaN\<close>, \<open>Infinity\<close> and
  \<open>-Infinity\<close> are the one value \<open>JNonFinite\<close>, which every \<open>Number.isFinite\<close> test rejects.
\<close>

datatype jsval = JUndefined | JNull | JNum real | JNonFinite | JStr string

text \<open>
  The builtin \<open>Number\<close> applied to a string is a parameter of the model: a \<open>number_reader\<close>
  returns the number read, or \<open>None\<close> where \<open>Number\<close> gives \<open>NaN\<close> or an infinity.
\<close>

type_synonym number_reader = "string \<Rightarrow> real option"

text \<open>
  \<open>Number(String(x).replace(...))\<close> followed by \<open>Number.isFinite\<close>. The text of a finite number
  holds neither a comma nor a percent sign and reads back as the same number; the texts of
  \<open>null\<close> and \<open>undefined\<close> are the words themselves.
\<close>

fun Number_String :: "number_reader \<Rightarrow> (string \<Rightarrow> string) \<Rightarrow> jsval \<Rightarrow> real option" where
  "Number_String N edit (JNum v) = Some v"
| "Number_String N edit JNonFinite = None"
| "Number_String N edit (JStr s) = N (edit s)"
| "Number_String N edit JNull = N (edit ''null'')"
| "Number_String N edit JUndefined = N (edit ''undefined'')"

text \<open>\<open>x ?? d\<close>\<close>

fun nullish :: "jsval \<Rightarrow> jsval \<Rightarrow> jsval" where
  "nullish JUndefined d = d"
| "nullish JNull d = d"
| "nullish x d = x"

text \<open>\<open>s.replace("%", "")\<close> removes the first percent sign, \<open>s.replace(/,/g, "")\<close> every comma.\<close>

definition replace_percent :: "string \<Rightarrow> string" where
  "replace_percent s = remove1 (CHR ''%'') s"

definition replace_commas :: "string \<Rightarrow> string" where
  "replace_commas s = filter (\<lambda>c. c \<noteq> CHR '','') s"

text \<open>
  A small reader for the examples: it reads non-empty strings of decimal digits and
  nothing else.
\<close>

definition digit_chars :: "char list" where
  "digit_chars = ''0123456789''"

fun digit_value :: "char \<Rightarrow> nat" where
  "digit_value c = length (takeWhile (\<lambda>d. d \<noteq> c) digit_chars)"

definition readDigits :: number_reader where
  "readDigits s =
     (if s \<noteq> [] \<and> list_all (\<lambda>c. c \<in> set digit_chars) s
      then Some (real (foldl (\<lambda>a c. 10 * a + digit_value c) 0 s))
      else None)"


section \<open>Reduction-value normalization\<close>







section \<open>Double-precision arithmetic\<close>

text \<open>
  JavaScript numbers are IEEE 754 doubles. A finite double is modelled by the real number it
  denotes. The ambition classification and the trajectory compute with these numbers, and
  there every arithmetic operation rounds its exact result to the nearest double, ties to
  the even significand, as the machine does. (The sign of a zero is not modelled: it is
  visible only in a division by zero, and no divisor of these functions is zero: they are a
  constant, a sum tested to be positive, a length and the difference of two different
  years.)

  \<open>rne\<close> rounds a real to the nearest integer, ties to even.
\<close>

definition rne :: "real \<Rightarrow> int" where
  "rne x =
     (let f = \<lfloor>x\<rfloor>; r = x - real_of_int f
      in if r < 1 / 2 then f
         else if 1 / 2 < r then f + 1
         else if even f then f else f + 1)"

text \<open>
  The exponent of a positive real \<open>x\<close>: the \<open>e\<close> with \<open>2^e \<le> x < 2^(e+1)\<close>, kept between -1022
  (below it the doubles are subnormal and share the exponent -1022) and 1024 (from where every
  number rounds to an infinity).
\<close>

function up :: "real \<Rightarrow> int \<Rightarrow> int" where
  "up x e = (if 2 \<le> x \<and> e < 1024 then up (x / 2) (e + 1) else e)"
  by pat_completeness auto
termination
  by (relation "measure (\<lambda>(x, e). nat (1024 - e))") auto

declare up.simps [simp del]

function down :: "real \<Rightarrow> int \<Rightarrow> int" where
  "down x e = (if x < 1 \<and> - 1022 < e then down (2 * x) (e - 1) else e)"
  by pat_completeness auto
termination
  by (relation "measure (\<lambda>(x, e). nat (e + 1022))") auto

declare down.simps [simp del]

definition expo :: "real \<Rightarrow> int" where
  "expo x = (if 1 \<le> x then up x 0 else down x 0)"

text \<open>
  \<open>rp\<close> rounds a positive real to 53 significant bits, \<open>rnd\<close> any real; the result of \<open>rnd\<close> is
  the double nearest to \<open>x\<close> as long as it is in range.
\<close>

definition rp :: "real \<Rightarrow> real" where
  "rp x = (let u = 2 powi (expo x - 52) in real_of_int (rne (x / u)) * u)"

definition rnd :: "real \<Rightarrow> real" where
  "rnd x = (if x = 0 then 0 else if x < 0 then - rp (- x) else rp x)"

definition MAX_VALUE :: real where
  "MAX_VALUE = (2 ^ 53 - 1) * 2 ^ 971"

text \<open>A number: a finite double, an infinity or \<open>NaN\<close>.\<close>

datatype num = Fin real | PInf | NInf | NaN

definition Round :: "real \<Rightarrow> num" where
  "Round x =
     (let y = rnd x
      in if MAX_VALUE < y then PInf else if y < - MAX_VALUE then NInf else Fin y)"

fun neg :: "num \<Rightarrow> num" where
  "neg (Fin a) = Fin (- a)"
| "neg PInf = NInf"
| "neg NInf = PInf"
| "neg NaN = NaN"

fun add :: "num \<Rightarrow> num \<Rightarrow> num" where
  "add (Fin a) (Fin b) = Round (a + b)"
| "add NaN y = NaN"
| "add x NaN = NaN"
| "add PInf NInf = NaN"
| "add NInf PInf = NaN"
| "add PInf y = PInf"
| "add NInf y = NInf"
| "add x PInf = PInf"
| "add x NInf = NInf"

definition sub :: "num \<Rightarrow> num \<Rightarrow> num" where
  "sub x y = add x (neg y)"

fun signed_inf :: "bool \<Rightarrow> num" where
  "signed_inf positive = (if positive then PInf else NInf)"

fun mul :: "num \<Rightarrow> num \<Rightarrow> num" where
  "mul (Fin a) (Fin b) = Round (a * b)"
| "mul NaN y = NaN"
| "mul x NaN = NaN"
| "mul PInf (Fin b) = (if b = 0 then NaN else signed_inf (0 < b))"
| "mul NInf (Fin b) = (if b = 0 then NaN else signed_inf (b < 0))"
| "mul (Fin a) PInf = (if a = 0 then NaN else signed_inf (0 < a))"
| "mul (Fin a) NInf = (if a = 0 then NaN else signed_inf (a < 0))"
| "mul PInf PInf = PInf"
| "mul NInf NInf = PInf"
| "mul PInf NInf = NInf"
| "mul NInf PInf = NInf"

fun divide_num :: "num \<Rightarrow> num \<Rightarrow> num" where
  "divide_num (Fin a) (Fin b) =
     (if b = 0 then (if a = 0 then NaN else signed_inf (0 < a)) else Round (a / b))"
| "divide_num NaN y = NaN"
| "divide_num x NaN = NaN"
| "divide_num (Fin a) PInf = Fin 0"
| "divide_num (Fin a) NInf = Fin 0"
| "divide_num PInf (Fin b) = signed_inf (0 \<le> b)"
| "divide_num NInf (Fin b) = signed_inf (b < 0)"
| "divide_num x y = NaN"

text \<open>The comparisons \<open><=\<close> and \<open><\<close>; every comparison with \<open>NaN\<close> is false.\<close>

fun le_num :: "num \<Rightarrow> num \<Rightarrow> bool" where
  "le_num (Fin a) (Fin b) = (a \<le> b)"
| "le_num NaN y = False"
| "le_num x NaN = False"
| "le_num NInf y = True"
| "le_num x PInf = True"
| "le_num x y = False"

fun less_num :: "num \<Rightarrow> num \<Rightarrow> bool" where
  "less_num (Fin a) (Fin b) = (a < b)"
| "less_num NaN y = False"
| "less_num x NaN = False"
| "less_num PInf y = False"
| "less_num x NInf = False"
| "less_num x y = True"

text \<open>A real number that is a finite double.\<close>

definition double :: "real \<Rightarrow> bool" where
  "double x \<longleftrightarrow> Round x = Fin x"


section \<open>Ambition classification\<close>

text \<open>The tolerance: the literal \<open>0.01\<close> is the double nearest to 1/100.\<close>

definition eps :: real where
  "eps = rnd (1 / 100)"

text \<open>
  The four tests: \<open>median !== null && companyFrac >= median + eps\<close> (here \<open>aboveMedian\<close>)
  and \<open>median !== null && companyFrac <= median - eps\<close> (here \<open>belowMedian\<close>). The company
  value is a result of \<open>asFrac\<close>, a finite number; a median is the quotient that \<open>medianOf\<close>
  returns.
\<close>

definition aboveMedian :: "num option \<Rightarrow> real \<Rightarrow> bool" where
  "aboveMedian median companyFrac =
     (case median of None \<Rightarrow> False | Some m \<Rightarrow> le_num (add m (Fin eps)) (Fin companyFrac))"

definition belowMedian :: "num option \<Rightarrow> real \<Rightarrow> bool" where
  "belowMedian median companyFrac =
     (case median of None \<Rightarrow> False | Some m \<Rightarrow> le_num (Fin companyFrac) (sub m (Fin eps)))"

definition ambition :: "real option \<Rightarrow> num option \<Rightarrow> num option \<Rightarrow> string" where
  "ambition companyFrac pcMedian prMedian =
     (case companyFrac of
        None \<Rightarrow> ''unclear relative to peers (missing company target)''
      | Some c \<Rightarrow>
          (let aboveCountry = aboveMedian pcMedian c;
               aboveRegion = aboveMedian prMedian c;
               belowCountry = belowMedian pcMedian c;
               belowRegion = belowMedian prMedian c
           in if aboveCountry \<and> aboveRegion
                then ''more ambitious than the median companies in both country and region''
              else if belowCountry \<and> belowRegion
                then ''less ambitious than the median companies in both country and region''
              else if aboveCountry \<and> belowRegion
                then ''above the country median but below the regional median''
              else if aboveRegion \<and> belowCountry
                then ''above the regional median but below the country median''
              else ''roughly in line with peer medians''))"

text \<open>The six outcomes.\<close>

definition ambition_outcomes :: "string list" where
  "ambition_outcomes =
     [''unclear relative to peers (missing company target)'',
      ''more ambitious than the median companies in both country and region'',
      ''less ambitious than the median companies in both country and region'',
      ''above the country median but below the regional median'',
      ''above the regional median but below the country median'',
      ''roughly in line with peer medians'']"

text \<open>
  The condition of the specification for ``more ambitious than both'': the company value is
  at least each available median plus 0.01.
\<close>

definition at_least_each_available :: "real \<Rightarrow> real option \<Rightarrow> real option \<Rightarrow> bool" where
  "at_least_each_available c pcMedian prMedian =
     list_all (\<lambda>m. c \<ge> m + 1 / 100) (List.map_filter id [pcMedian, prMedian])"


section \<open>Benchmark trajectory\<close>

text \<open>The fields of \<open>bench.company\<close> that the trajectory reads.\<close>

record company =
  sbti_start_year :: jsval
  sbti_target_year :: jsval
  scope_1 :: jsval
  scope_2 :: jsval
  sbti_scope_1_2 :: jsval
  sbti_scope_1_target :: jsval
  sbti_scope_2_target :: jsval
  sbti_scope_1_2_target :: jsval
  sbti_scope_1_2_reduction_pct :: jsval

text \<open>\<open>Number(v)\<close> followed by \<open>Number.isFinite\<close>: \<open>Number(null)\<close> is 0, \<open>Number(undefined)\<close> is \<open>NaN\<close>.\<close>

fun Number_js :: "number_reader \<Rightarrow> jsval \<Rightarrow> real option" where
  "Number_js N JUndefined = None"
| "Number_js N JNull = Some 0"
| "Number_js N (JNum v) = Some v"
| "Number_js N JNonFinite = None"
| "Number_js N (JStr s) = N s"

text \<open>\<open>sf\<close>, the reader of the emission fields inside \<open>lineSeries\<close>.\<close>

definition sf :: "number_reader \<Rightarrow> jsval \<Rightarrow> real option" where
  "sf N v =
     (if v = JNull \<or> v = JUndefined \<or> v = JStr [] then None
      else Number_String N replace_commas v)"

text \<open>
  The six baseline and target values of a trajectory. They are computed in double
  arithmetic, so a value is a number (a sum of two large baselines is an infinity).
\<close>

record targets =
  s1b :: "num option"
  s2b :: "num option"
  s12b :: "num option"
  s1t :: "num option"
  s2t :: "num option"
  s12t :: "num option"

text \<open>
  The derivation inside \<open>lineSeries\<close>, from the readings of the fields to the values handed
  to \<open>make\<close>. The arguments are the readings \<open>sf\<close> returns, in the order the code takes them.
\<close>

definition derive_steps ::
  "num option \<Rightarrow> num option \<Rightarrow> num option \<Rightarrow> num option \<Rightarrow> num option \<Rightarrow> num option
     \<Rightarrow> num option \<Rightarrow> targets" where
  "derive_steps b1 b2 b12_0 t1_0 t2_0 t12_0 redRaw =
     (let b12 = (case (b12_0, b1, b2) of
                   (None, Some a, Some b) \<Rightarrow> Some (add a b)
                 | _ \<Rightarrow> b12_0);
          t12_1 = (case (t12_0, redRaw, b12) of
                     (None, Some r, Some b) \<Rightarrow>
                        (let rf = (if less_num (Fin 1) r then divide_num r (Fin 100) else r)
                         in Some (mul b (sub (Fin 1) rf)))
                   | _ \<Rightarrow> t12_0);
          split = (case (t12_1, b1, b2) of
                     (Some t, Some a, Some b) \<Rightarrow>
                        (t1_0 = None \<or> t2_0 = None) \<and> less_num (Fin 0) (add a b)
                   | _ \<Rightarrow> False);
          t1 = (if split \<and> t1_0 = None
                then Some (mul (the t12_1) (divide_num (the b1) (add (the b1) (the b2))))
                else t1_0);
          t2 = (if split \<and> t2_0 = None
                then Some (mul (the t12_1) (divide_num (the b2) (add (the b1) (the b2))))
                else t2_0);
          t12 = (case (t12_1, t1, t2) of
                   (None, Some x, Some y) \<Rightarrow> Some (add x y)
                 | _ \<Rightarrow> t12_1)
      in \<lparr>s1b = b1, s2b = b2, s12b = b12, s1t = t1, s2t = t2, s12t = t12\<rparr>)"

text \<open>\<open>sf\<close> returns finite numbers only.\<close>

definition derive :: "number_reader \<Rightarrow> company \<Rightarrow> targets" where
  "derive N c =
     derive_steps (map_option Fin (sf N (scope_1 c))) (map_option Fin (sf N (scope_2 c)))
       (map_option Fin (sf N (sbti_scope_1_2 c)))
       (map_option Fin (sf N (sbti_scope_1_target c)))
       (map_option Fin (sf N (sbti_scope_2_target c)))
       (map_option Fin (sf N (sbti_scope_1_2_target c)))
       (map_option Fin (sf N (sbti_scope_1_2_reduction_pct c)))"

text \<open>
  \<open>for (let y = sy; y <= ty; y++) years.push(y)\<close>. The increment is a double addition: from
  \<open>2^53\<close> on, \<open>y + 1\<close> rounds back to \<open>y\<close> and the loop does not end, which is the result \<open>None\<close>.
  The years are finite: \<open>sy\<close> is, and no year exceeds \<open>ty\<close>. (An array holds fewer than \<open>2^32\<close>
  elements and a \<open>push\<close> beyond that fails; the loop is modelled without this bound, and
  what is stated of its result is stated for fewer years.)
\<close>

partial_function (option) years_from :: "real \<Rightarrow> real \<Rightarrow> real list option" where
  "years_from y ty =
     (if y \<le> ty then Option.bind (years_from (rnd (y + 1)) ty) (\<lambda>years. Some (y # years))
      else Some [])"

record series =
  name :: string
  points :: "(real \<times> num) list"

text \<open>
  \<open>make\<close> (here \<open>make_series\<close>): the point of index \<open>i\<close> lies at the fraction
  \<open>i / (years.length - 1 || 1)\<close> of the way from \<open>v0\<close> to \<open>v1\<close>. Indices and lengths of arrays
  are whole numbers below \<open>2^32\<close>, doubles all of them.
\<close>

definition make_series :: "real list \<Rightarrow> string \<Rightarrow> num option \<Rightarrow> num option \<Rightarrow> series" where
  "make_series years nm v0 v1 =
     (case (v0, v1) of
        (Some a, Some b) \<Rightarrow>
          (let d = int (length years) - 1;
               denom = (if d = 0 then 1 else real_of_int d)
           in \<lparr>name = nm,
               points = map (\<lambda>(i, y). (y, add a (mul (sub b a) (divide_num (Fin (real i)) (Fin denom)))))
                          (enumerate 0 years)\<rparr>)
      | _ \<Rightarrow> \<lparr>name = nm, points = []\<rparr>)"

text \<open>
  \<open>lineSeries\<close>; the argument is \<open>bench?.company\<close>, \<open>None\<close> when it is missing. The result is
  \<open>None\<close> when the loop over the years does not end.
\<close>

definition lineSeries :: "number_reader \<Rightarrow> company option \<Rightarrow> series list option" where
  "lineSeries N bench_company =
     (case bench_company of
        None \<Rightarrow> Some []
      | Some c \<Rightarrow>
          (case (Number_js N (sbti_start_year c), Number_js N (sbti_target_year c)) of
             (Some sy, Some ty) \<Rightarrow>
               if ty \<le> sy then Some []
               else
                 (let v = derive N c
                  in Option.bind (years_from sy ty)
                       (\<lambda>years. Some [make_series years ''Scope 1'' (s1b v) (s1t v),
                                      make_series years ''Scope 2'' (s2b v) (s2t v),
                                      make_series years ''Scope 1+2'' (s12b v) (s12t v)]))
           | _ \<Rightarrow> Some []))"

text \<open>The SBTi panel builds one row per year instead, with \<open>null\<close> where a scope has no value.\<close>

record chart_row =
  year :: real
  Scope_1 :: "num option"
  Scope_2 :: "num option"
  Scope_1_2 :: "num option"

definition lerp :: "num option \<Rightarrow> num option \<Rightarrow> real \<Rightarrow> real \<Rightarrow> real \<Rightarrow> num option" where
  "lerp a b sy ty y =
     (case (a, b) of
        (Some a', Some b') \<Rightarrow>
          (let t = divide_num (sub (Fin y) (Fin sy)) (sub (Fin ty) (Fin sy))
           in Some (add a' (mul (sub b' a') t)))
      | _ \<Rightarrow> None)"

partial_function (option) rows_from :: "real \<Rightarrow> real \<Rightarrow> real \<Rightarrow> targets \<Rightarrow> chart_row list option" where
  "rows_from yr sy ty v =
     (if yr \<le> ty
      then Option.bind (rows_from (rnd (yr + 1)) sy ty v)
             (\<lambda>ys. Some (\<lparr>year = yr,
                            Scope_1 = lerp (s1b v) (s1t v) sy ty yr,
                            Scope_2 = lerp (s2b v) (s2t v) sy ty yr,
                            Scope_1_2 = lerp (s12b v) (s12t v) sy ty yr\<rparr> # ys))
      else Some [])"

text \<open>
  \<open>buildLinearSeries\<close>; \<open>sy\<close> and \<open>ty\<close> are \<open>None\<close> where \<open>Number.isFinite\<close> fails.
\<close>

definition buildLinearSeries :: "real option \<Rightarrow> real option \<Rightarrow> targets \<Rightarrow> chart_row list option" where
  "buildLinearSeries sy ty v =
     (case (sy, ty) of
        (Some sy', Some ty') \<Rightarrow> if ty' \<le> sy' then Some [] else rows_from sy' sy' ty' v
      | _ \<Rightarrow> Some [])"

text \<open>
  The company of the specification's example: start 2020, target 2030, Scope 1 of 100,
  Scope 2 of 50, a reduction of 42 and no explicit targets.
\<close>

definition example_company :: company where
  "example_company =
     \<lparr>sbti_start_year = JNum 2020, sbti_target_year = JNum 2030,
      scope_1 = JNum 100, scope_2 = JNum 50, sbti_scope_1_2 = JUndefined,
      sbti_scope_1_target = JUndefined, sbti_scope_2_target = JUndefined,
      sbti_scope_1_2_target = JUndefined, sbti_scope_1_2_reduction_pct = JNum 42\<rparr>"

text \<open>
  Two further companies with Scope 1 values only: one whose target year lies two and a half
  years after the start year, and one whose values are 0.5 and 0.1 (the double nearest to
  1/10) over the years 2020 and 2021.
\<close>

definition half_year_company :: company where
  "half_year_company =
     \<lparr>sbti_start_year = JNum 2020, sbti_target_year = JNum (4045 / 2),
      scope_1 = JNum 100, scope_2 = JUndefined, sbti_scope_1_2 = JUndefined,
      sbti_scope_1_target = JNum 50, sbti_scope_2_target = JUndefined,
      sbti_scope_1_2_target = JUndefined, sbti_scope_1_2_reduction_pct = JUndefined\<rparr>"

definition rounded_company :: company where
  "rounded_company =
     \<lparr>sbti_start_year = JNum 2020, sbti_target_year = JNum 2021,
      scope_1 = JNum (1 / 2), scope_2 = JUndefined, sbti_scope_1_2 = JUndefined,
      sbti_scope_1_target = JNum (rnd (1 / 10)), sbti_scope_2_target = JUndefined,
      sbti_scope_1_2_target = JUndefined, sbti_scope_1_2_reduction_pct = JUndefined\<rparr>"


section \<open>Peer statistics\<close>

text \<open>
  \<open>pctNum\<close> of \<open>buildPeerDisplay\<close>, applied to the text of the row's reduction cell. The cell
  is \<open>String(x)\<close> of the peer's raw field \<open>x\<close>, or the empty text when the field is \<open>null\<close> or
  missing; the empty text gives \<open>null\<close>. The result is a percentage.
\<close>

definition pctNum :: "number_reader \<Rightarrow> jsval \<Rightarrow> real option" where
  "pctNum N x =
     (if x = JNull \<or> x = JUndefined \<or> x = JStr [] then None
      else case Number_String N replace_percent x of
             None \<Rightarrow> None
           | Some v \<Rightarrow>
               if 0 \<le> v \<and> v \<le> 1 then Some (v * 100)
               else if 1 < v \<and> v \<le> 100 then Some v
               else None)"

text \<open>The mean and the median of \<open>buildPeerDisplay\<close> over the percentages \<open>nums\<close>.\<close>

definition buildPeerDisplay_nums :: "number_reader \<Rightarrow> jsval list \<Rightarrow> real list" where
  "buildPeerDisplay_nums N raw = List.map_filter (pctNum N) raw"

definition buildPeerDisplay_mean :: "real list \<Rightarrow> real option" where
  "buildPeerDisplay_mean nums =
     (if length nums \<noteq> 0 then Some (foldl (+) 0 nums / real (length nums)) else None)"

definition buildPeerDisplay_median :: "real list \<Rightarrow> real option" where
  "buildPeerDisplay_median nums =
     (let sorted = sort nums
      in if length sorted = 0 then None
         else if length sorted mod 2 = 1 then Some (sorted ! ((length sorted - 1) div 2))
         else Some ((sorted ! (length sorted div 2 - 1) + sorted ! (length sorted div 2)) / 2))"

text \<open>
  The SBTi panel keeps the reduction as a display text first. \<open>x.toFixed(1)\<close> writes \<open>x\<close> with
  one decimal, rounding halves away from zero (numbers from \<open>10^21\<close> on are written in full);
  \<open>toFixed1\<close> is the number that this text denotes.
\<close>

definition toFixed1 :: "real \<Rightarrow> real" where
  "toFixed1 x =
     (if \<bar>x\<bar> \<ge> 10 ^ 21 then x
      else if x < 0 then - (real_of_int \<lfloor>- x * 10 + 1 / 2\<rfloor> / 10)
      else real_of_int \<lfloor>x * 10 + 1 / 2\<rfloor> / 10)"

datatype pct_text = Empty_text | Percent_text real

text \<open>\<open>pctDisp\<close>: the empty text, or the number with one decimal followed by a percent sign.\<close>

definition pctDisp :: "number_reader \<Rightarrow> jsval \<Rightarrow> pct_text" where
  "pctDisp N x =
     (case Number_String N replace_percent (nullish x (JStr [])) of
        None \<Rightarrow> Empty_text
      | Some n \<Rightarrow> if n \<le> 1 then Percent_text (toFixed1 (n * 100)) else Percent_text (toFixed1 n))"

text \<open>\<open>toPctNum\<close> reads the display text back; \<open>Number("")\<close> is 0.\<close>

fun toPctNum :: "pct_text \<Rightarrow> real option" where
  "toPctNum Empty_text = Some 0"
| "toPctNum (Percent_text v) = Some v"

definition normPeers_pctNums :: "number_reader \<Rightarrow> jsval list \<Rightarrow> real list" where
  "normPeers_pctNums N rows = List.map_filter toPctNum (map (pctDisp N) rows)"

definition normPeers_avg :: "real list \<Rightarrow> real option" where
  "normPeers_avg pctNums =
     (if length pctNums \<noteq> 0 then Some (foldl (+) 0 pctNums / real (length pctNums)) else None)"

definition normPeers_median :: "real list \<Rightarrow> real option" where
  "normPeers_median pctNums =
     (if length pctNums \<noteq> 0 then Some (sort pctNums ! (length pctNums div 2)) else None)"

text \<open>
  The median in the specification's words: the middle value of the sorted values for an odd
  count, the average of the two middle values for an even count.
\<close>

definition median_spec :: "real list \<Rightarrow> real" where
  "median_spec xs =
     (let s = sort xs; n = length s
      in if odd n then s ! (n div 2) else (s ! (n div 2 - 1) + s ! (n div 2)) / 2)"


section \<open>Gap severity aggregation\<close>

text \<open>
  A finding's severity enters the aggregation only through its text: \<open>String(v)\<close> in the
  overall count and the property key of \<open>v\<close> in the grouping, which are the same text for a
  number or a string. So a present severity is that text (\<open>3\<close> and \<open>"3"\<close> are both
  \<open>Present ''3''\<close>), and \<open>Absent\<close> is \<open>null\<close> or a missing field.
\<close>

datatype severity_field = Absent | Present string

record finding =
  framework_question_code :: "string option"
  severity :: severity_field

type_synonym counts = "(string \<times> nat) list"

definition zero_counts :: counts where
  "zero_counts = [(''0'', 0), (''1'', 0), (''2'', 0), (''3'', 0)]"

definition count_of :: "counts \<Rightarrow> string \<Rightarrow> nat" where
  "count_of cs k = (case map_of cs k of None \<Rightarrow> 0 | Some n \<Rightarrow> n)"

text \<open>\<open>counts[k] = (counts[k] || 0) + 1\<close>\<close>

fun bump :: "string \<Rightarrow> counts \<Rightarrow> counts" where
  "bump k [] = [(k, 1)]"
| "bump k ((k', n) # cs) = (if k = k' then (k', n + 1) # cs else (k', n) # bump k cs)"

text \<open>
  \<open>severityCounts\<close>: \<open>String(r.severity ?? "")\<close> is counted when it is one of the four keys.
  (The \<open>in\<close> test also accepts the names every object inherits, such as \<open>toString\<close>; a
  severity with such a text would change none of the four counters either.)
\<close>

definition String_severity :: "severity_field \<Rightarrow> string" where
  "String_severity v = (case v of Absent \<Rightarrow> [] | Present k \<Rightarrow> k)"

definition severityCounts_step :: "counts \<Rightarrow> finding \<Rightarrow> counts" where
  "severityCounts_step cs r =
     (let sev = String_severity (severity r)
      in if sev \<in> set (map fst cs) then bump sev cs else cs)"

definition severityCounts :: "finding list \<Rightarrow> counts" where
  "severityCounts gapData = foldl severityCounts_step zero_counts gapData"

text \<open>
  The share of a severity in the overall stacked bar,
  \<open>totalRecords > 0 ? (count / totalRecords) * 100 : 0\<close> with \<open>totalRecords = gapData.length\<close>;
  the overview sentence prints the same quotient for severities 3 and 0, without decimals.
\<close>

definition totalRecords :: "finding list \<Rightarrow> nat" where
  "totalRecords gapData = length gapData"

definition overall_pct :: "finding list \<Rightarrow> string \<Rightarrow> real" where
  "overall_pct gapData sev =
     (if totalRecords gapData > 0
      then real (count_of (severityCounts gapData) sev) / real (totalRecords gapData) * 100
      else 0)"

text \<open>
  The category of a finding. \<open>/(?:GRI[- ])?(\d+)[-:]/\<close> matches, at the leftmost position
  where it can, a run of digits followed by a hyphen or a colon, after \<open>GRI-\<close> or \<open>GRI \<close> if
  that stands there; the run is the whole maximal run from its start, since a shorter one is
  followed by a digit. \<open>/^(\d+)/\<close> is the run of digits the code starts with.
\<close>

definition is_digit :: "char \<Rightarrow> bool" where
  "is_digit c = (c \<in> set digit_chars)"

definition digits_then_sep :: "string \<Rightarrow> string option" where
  "digits_then_sep s =
     (let ds = takeWhile is_digit s; rest = dropWhile is_digit s
      in case rest of
           [] \<Rightarrow> None
         | c # _ \<Rightarrow> if ds \<noteq> [] \<and> (c = CHR ''-'' \<or> c = CHR '':'') then Some ds else None)"

definition match_here :: "string \<Rightarrow> string option" where
  "match_here s =
     (case (if take 4 s = ''GRI-'' \<or> take 4 s = ''GRI '' then digits_then_sep (drop 4 s) else None) of
        Some ds \<Rightarrow> Some ds
      | None \<Rightarrow> digits_then_sep s)"

fun match_family :: "string \<Rightarrow> string option" where
  "match_family [] = match_here []"
| "match_family (c # s) =
     (case match_here (c # s) of Some ds \<Rightarrow> Some ds | None \<Rightarrow> match_family s)"

definition match_leading :: "string \<Rightarrow> string option" where
  "match_leading s = (let ds = takeWhile is_digit s in if ds \<noteq> [] then Some ds else None)"

definition category :: "finding \<Rightarrow> string" where
  "category r =
     (let code = (case framework_question_code r of None \<Rightarrow> [] | Some c \<Rightarrow> c)
      in case (case match_family code of Some ds \<Rightarrow> Some ds | None \<Rightarrow> match_leading code) of
           Some ds \<Rightarrow> ''GRI '' @ ds
         | None \<Rightarrow> ''Other'')"

text \<open>\<open>griGroups\<close>: the counters of each category, in the order the categories first occur.\<close>

type_synonym groups = "(string \<times> counts) list"

definition key_severity :: "severity_field \<Rightarrow> string" where
  "key_severity v = (case v of Absent \<Rightarrow> ''3'' | Present k \<Rightarrow> k)"

fun bump_group :: "string \<Rightarrow> string \<Rightarrow> groups \<Rightarrow> groups" where
  "bump_group cat sev [] = [(cat, bump sev zero_counts)]"
| "bump_group cat sev ((cat', cs) # gs) =
     (if cat = cat' then (cat', bump sev cs) # gs else (cat', cs) # bump_group cat sev gs)"

definition griGroups_step :: "groups \<Rightarrow> finding \<Rightarrow> groups" where
  "griGroups_step gs r = bump_group (category r) (key_severity (severity r)) gs"

definition griGroups :: "finding list \<Rightarrow> groups" where
  "griGroups gapData = foldl griGroups_step [] gapData"

text \<open>The sums that the two displays are made of, over the four severities.\<close>

definition four_sum :: "counts \<Rightarrow> nat" where
  "four_sum cs = count_of cs ''0'' + count_of cs ''1'' + count_of cs ''2'' + count_of cs ''3''"

definition overall_sum :: "finding list \<Rightarrow> nat" where
  "overall_sum gapData = four_sum (severityCounts gapData)"

definition category_sum :: "finding list \<Rightarrow> nat" where
  "category_sum gapData = sum_list (map (\<lambda>(cat, cs). four_sum cs) (griGroups gapData))"

definition group_count :: "groups \<Rightarrow> string \<Rightarrow> string \<Rightarrow> nat" where
  "group_count gs cat sev = (case map_of gs cat of None \<Rightarrow> 0 | Some cs \<Rightarrow> count_of cs sev)"

definition absent_count :: "finding list \<Rightarrow> nat" where
  "absent_count gapData = length (filter (\<lambda>r. severity r = Absent) gapData)"

text \<open>
  The denominator of the claim: the number of findings whose severity is one of the four
  defined values.
\<close>

definition known_count :: "finding list \<Rightarrow> nat" where
  "known_count gapData =
     length (filter (\<lambda>r. String_severity (severity r) \<in> set [''0'', ''1'', ''2'', ''3'']) gapData)"

text \<open>The sum of the four counters over all categories, for any grouping.\<close>

definition groups_sum :: "groups \<Rightarrow> nat" where
  "groups_sum gs = sum_list (map (\<lambda>(cat, cs). four_sum cs) gs)"

text \<open>Two findings of one category: one missing disclosure and one without a severity.\<close>

definition example_findings :: "finding list" where
  "example_findings =
     [\<lparr>framework_question_code = Some ''GRI 305-1'', severity = Present ''3''\<rparr>,
      \<lparr>framework_question_code = Some ''GRI 305-2'', severity = Absent\<rparr>]"


section \<open>Artifact store gateway\<close>

text \<open>
  A thrown JavaScript error, with its message, and the response of a \<open>fetch\<close> as the routes
  use it: the status, the body as text (\<open>r.text()\<close>) and the body as JSON (\<open>r.json()\<close>, which
  throws when the body is not JSON). The DBFS read API answers with an object holding the
  content in base64 (\<open>data\<close>) and its length (\<open>bytes_read\<close>); either may be missing.
\<close>

datatype exn = Error string

record payload =
  data :: "string option"
  bytes_read :: "nat option"

datatype response = Response (status: nat) (body_text: string) (json: "payload option")

definition ok :: "response \<Rightarrow> bool" where
  "ok r = (200 \<le> status r \<and> status r \<le> 299)"

text \<open>
  The store answers a read of a path; a rejected \<open>fetch\<close> is \<open>Inl\<close>. Decoding
  (\<open>Buffer.from(s, "base64").toString("utf8")\<close>) and \<open>JSON.parse\<close> are parameters; \<open>parse\<close>
  returns \<open>None\<close> where \<open>JSON.parse\<close> throws.
\<close>

type_synonym store = "string \<Rightarrow> exn + response"

datatype 'j ReadResult = Ok 'j | Failed nat string

text \<open>\<open>dbfsReadJson\<close> of the benchmark route.\<close>

definition dbfsReadJson ::
  "store \<Rightarrow> (string \<Rightarrow> string) \<Rightarrow> (string \<Rightarrow> 'j option) \<Rightarrow> string \<Rightarrow> exn + 'j ReadResult" where
  "dbfsReadJson fetch decode parse path =
     (case fetch path of
        Inl e \<Rightarrow> Inl e
      | Inr r \<Rightarrow>
          if \<not> ok r then Inr (Failed (status r) (body_text r))
          else
            (case json r of
               None \<Rightarrow> Inl (Error ''Unexpected token in JSON'')
             | Some p \<Rightarrow>
                 (let raw = decode (case data p of None \<Rightarrow> [] | Some d \<Rightarrow> d)
                  in case parse raw of
                       Some j \<Rightarrow> Inr (Ok j)
                     | None \<Rightarrow> Inr (Failed 502 (''Artifact is not valid JSON at '' @ path)))))"

text \<open>\<open>dbfsRead\<close> of the gap route.\<close>

definition dbfsRead ::
  "store \<Rightarrow> (string \<Rightarrow> string) \<Rightarrow> (string \<Rightarrow> 'j option) \<Rightarrow> string \<Rightarrow> exn + 'j ReadResult" where
  "dbfsRead fetch decode parse path =
     (case fetch path of
        Inl e \<Rightarrow> Inl e
      | Inr r \<Rightarrow>
          if \<not> ok r then Inr (Failed (status r) (body_text r))
          else
            (case json r of
               None \<Rightarrow> Inl (Error ''Unexpected token in JSON'')
             | Some j \<Rightarrow>
                 if data j = None \<or> data j = Some [] then Inr (Failed 500 ''DBFS read returned no data'')
                 else
                   (case parse (decode (the (data j))) of
                      Some parsed \<Rightarrow> Inr (Ok parsed)
                    | None \<Rightarrow> Inr (Failed 500 ''Failed to parse JSON''))))"

text \<open>
  What a route answers: the HTTP status and the body. With it the model returns the paths
  that were read, in the order of the reads.
\<close>

datatype 'j body =
    Artifact 'j string
  | Read_failed nat string
  | Not_found "string list"
  | Server_error string
  | Bad_request string

datatype 'j reply = Reply (http_status: nat) (body: "'j body")

type_synonym 'j reader = "string \<Rightarrow> exn + 'j ReadResult"

text \<open>
  The loop over the candidates in \<open>GET\<close> of the benchmark route. An error thrown inside the
  \<open>try\<close> is answered with status 500.
\<close>

fun benchmark_candidates ::
  "'j reader \<Rightarrow> string list \<Rightarrow> (string \<times> nat) list \<Rightarrow> string list \<Rightarrow> 'j reply \<times> string list" where
  "benchmark_candidates rd [] tried reads = (Reply 404 (Not_found (map fst tried)), reads)"
| "benchmark_candidates rd (path # candidates) tried reads =
     (case rd path of
        Inl (Error m) \<Rightarrow> (Reply 500 (Server_error m), reads @ [path])
      | Inr (Ok j) \<Rightarrow> (Reply 200 (Artifact j path), reads @ [path])
      | Inr (Failed st b) \<Rightarrow>
          if st \<noteq> 0 \<and> st \<noteq> 404
          then (Reply st (Read_failed st path), reads @ [path])
          else benchmark_candidates rd candidates (tried @ [(path, st)]) (reads @ [path]))"

text \<open>The loop over the candidates in \<open>GET\<close> of the gap route.\<close>

fun gap_candidates ::
  "'j reader \<Rightarrow> string list \<Rightarrow> string list \<Rightarrow> string list \<Rightarrow> 'j reply \<times> string list" where
  "gap_candidates rd [] tried reads = (Reply 404 (Not_found tried), reads)"
| "gap_candidates rd (path # candidates) tried reads =
     (case rd path of
        Inl (Error m) \<Rightarrow> (Reply 500 (Server_error m), reads @ [path])
      | Inr (Ok j) \<Rightarrow> (Reply 200 (Artifact j path), reads @ [path])
      | Inr (Failed st b) \<Rightarrow>
          if st \<noteq> 404
          then (Reply st (Read_failed st path), reads @ [path])
          else gap_candidates rd candidates (tried @ [path]) (reads @ [path]))"

text \<open>\<open>s.replace(/\/$/, "")\<close> and \<open>s.replace(/^dbfs:\//, "")\<close>\<close>

definition strip_trailing_slash :: "string \<Rightarrow> string" where
  "strip_trailing_slash s = (if s \<noteq> [] \<and> last s = CHR ''/'' then butlast s else s)"

definition strip_dbfs_prefix :: "string \<Rightarrow> string" where
  "strip_dbfs_prefix s = (if take 6 s = ''dbfs:/'' then drop 6 s else s)"

text \<open>
  The two routes. A missing or empty environment variable or parameter is \<open>None\<close> or the
  empty text.
\<close>

definition falsy :: "string option \<Rightarrow> bool" where
  "falsy v = (v = None \<or> v = Some [])"

definition benchmark_GET ::
  "store \<Rightarrow> (string \<Rightarrow> string) \<Rightarrow> (string \<Rightarrow> 'j option) \<Rightarrow> string option \<Rightarrow> string option
     \<Rightarrow> string option \<Rightarrow> string option \<Rightarrow> 'j reply \<times> string list" where
  "benchmark_GET fetch decode parse host token benchmark_dir pdfId =
     (let baseDir = strip_trailing_slash
                      (if falsy benchmark_dir then ''dbfs:/tmp/sbti_benchmarks'' else the benchmark_dir)
      in if falsy host \<or> falsy token
           then (Reply 400 (Bad_request ''Databricks configuration missing (DATABRICKS_HOST/TOKEN)''), [])
         else if falsy pdfId then (Reply 400 (Bad_request ''Missing pdfId''), [])
         else benchmark_candidates (dbfsReadJson fetch decode parse)
                [baseDir @ ''/benchmark_'' @ the pdfId @ ''.json'',
                 baseDir @ ''/'' @ the pdfId @ ''.json'',
                 baseDir @ ''/'' @ the pdfId @ ''/benchmark.json''] [] [])"

definition gap_GET ::
  "store \<Rightarrow> (string \<Rightarrow> string) \<Rightarrow> (string \<Rightarrow> 'j option) \<Rightarrow> string option \<Rightarrow> string option
     \<Rightarrow> string option \<Rightarrow> string option \<Rightarrow> 'j reply \<times> string list" where
  "gap_GET fetch decode parse host token gap_dir pdfId =
     (if falsy host \<or> falsy token
        then (Reply 400 (Bad_request ''Databricks configuration missing (DATABRICKS_HOST / DATABRICKS_TOKEN)''), [])
      else if falsy pdfId then (Reply 400 (Bad_request ''Missing pdfId''), [])
      else
        (let gapDir = (if falsy gap_dir then ''dbfs:/tmp/gap_analysis'' else the gap_dir);
             baseDir = strip_trailing_slash (strip_dbfs_prefix gapDir)
         in gap_candidates (dbfsRead fetch decode parse)
              [baseDir @ ''/severity_'' @ the pdfId @ ''.json'',
               baseDir @ ''/'' @ the pdfId @ ''.json'',
               baseDir @ ''/gap_'' @ the pdfId @ ''.json''] [] []))"


subsection \<open>The paged read of the \<open>dbfs-read\<close> route\<close>

text \<open>
  Here the store is asked for a chunk at an offset, up to three times: the answer may depend
  on the path, the offset and the number of the attempt.
\<close>

type_synonym paged_store = "string \<Rightarrow> nat \<Rightarrow> nat \<Rightarrow> exn + response"

function fetchWithRetry :: "(nat \<Rightarrow> exn + response) \<Rightarrow> nat \<Rightarrow> nat \<Rightarrow> exn + response" where
  "fetchWithRetry attempt i retries =
     (if i < retries
      then (case attempt i of
              Inr r \<Rightarrow> if ok r \<or> status r = 404 then Inr r else fetchWithRetry attempt (i + 1) retries
            | Inl e \<Rightarrow> if int i = int retries - 1 then Inl e else fetchWithRetry attempt (i + 1) retries)
      else Inl (Error ''Max retries exceeded''))"
  by pat_completeness auto
termination
  by (relation "measure (\<lambda>(attempt, i, retries). retries - i)") auto

declare fetchWithRetry.simps [simp del]

definition CHUNK :: nat where
  "CHUNK = 1000000"

datatype paged = Thrown exn | Http_error nat string | Complete string

text \<open>
  The \<open>while (true)\<close> loop. It goes on for as long as the store keeps answering with full
  chunks, so it is a partial function: \<open>None\<close> is a read that never ends.
\<close>

partial_function (option) read_pages :: "(nat \<Rightarrow> nat \<Rightarrow> exn + response) \<Rightarrow> nat \<Rightarrow> string \<Rightarrow> paged option" where
  "read_pages chunk_at offset base64All =
     (case fetchWithRetry (chunk_at offset) 0 3 of
        Inl e \<Rightarrow> Some (Thrown e)
      | Inr r \<Rightarrow>
          if \<not> ok r then Some (Http_error (status r) (body_text r))
          else
            (case json r of
               None \<Rightarrow> Some (Thrown (Error ''Unexpected token in JSON''))
             | Some j \<Rightarrow>
                 if (case data j of None \<Rightarrow> [] | Some d \<Rightarrow> d) = []
                    \<or> (case bytes_read j of None \<Rightarrow> 0 | Some n \<Rightarrow> n) = 0
                 then Some (Complete base64All)
                 else if (case bytes_read j of None \<Rightarrow> 0 | Some n \<Rightarrow> n) < CHUNK
                 then Some (Complete (base64All @ (case data j of None \<Rightarrow> [] | Some d \<Rightarrow> d)))
                 else read_pages chunk_at
                        (offset + (case bytes_read j of None \<Rightarrow> 0 | Some n \<Rightarrow> n))
                        (base64All @ (case data j of None \<Rightarrow> [] | Some d \<Rightarrow> d))))"

datatype 'j proxy_body =
    Json_kind 'j string
  | Text_kind string string
  | Proxy_error string

datatype 'j proxy_reply = Proxy_reply (proxy_status: nat) (proxy_body: "'j proxy_body")

text \<open>The route accepts both \<open>/dbfs/...\<close> and \<open>dbfs:/...\<close>.\<close>

definition dbfsPath_of :: "string \<Rightarrow> string" where
  "dbfsPath_of rawPath =
     (if take 6 rawPath = ''/dbfs/'' then ''dbfs:/'' @ drop 6 rawPath else rawPath)"

text \<open>\<open>GET\<close> of the \<open>dbfs-read\<close> route.\<close>

definition dbfs_read_GET ::
  "paged_store \<Rightarrow> (string \<Rightarrow> string) \<Rightarrow> (string \<Rightarrow> 'j option) \<Rightarrow> string option \<Rightarrow> string option
     \<Rightarrow> string option \<Rightarrow> 'j proxy_reply option" where
  "dbfs_read_GET fetch decode parse host token path_param =
     (if falsy host \<or> falsy token
        then Some (Proxy_reply 400 (Proxy_error ''Missing DATABRICKS_HOST or DATABRICKS_TOKEN''))
      else if falsy path_param then Some (Proxy_reply 400 (Proxy_error ''Missing path query param''))
      else
        (let rawPath = the path_param;
             dbfsPath = dbfsPath_of rawPath
         in case read_pages (fetch dbfsPath) 0 [] of
              None \<Rightarrow> None
            | Some (Thrown (Error m)) \<Rightarrow> Some (Proxy_reply 500 (Proxy_error m))
            | Some (Http_error st t) \<Rightarrow> Some (Proxy_reply st (Proxy_error (''DBFS read failed: '' @ take 300 t)))
            | Some (Complete base64All) \<Rightarrow>
                if base64All = [] then Some (Proxy_reply 200 (Text_kind [] dbfsPath))
                else
                  (let content = decode base64All
                   in case parse content of
                        Some artifact \<Rightarrow> Some (Proxy_reply 200 (Json_kind artifact dbfsPath))
                      | None \<Rightarrow> Some (Proxy_reply 200 (Text_kind content dbfsPath)))))"

text \<open>A candidate counts as absent when its read failed with status 404.\<close>

definition absent :: "'j reader \<Rightarrow> string \<Rightarrow> bool" where
  "absent rd p = (case rd p of Inr (Failed st b) \<Rightarrow> st = 404 | _ \<Rightarrow> False)"

text \<open>
  A store for the examples: the first candidate is absent, the second holds the JSON text
  \<open>{}\<close> (\<open>e30=\<close> in base64), the third is not text that parses, and every other path fails
  with status 500.
\<close>

definition example_store :: store where
  "example_store path =
     (if path = ''A'' then Inr (Response 404 ''RESOURCE_DOES_NOT_EXIST'' None)
      else if path = ''B'' then Inr (Response 200 [] (Some \<lparr>data = Some ''e30='', bytes_read = Some 2\<rparr>))
      else if path = ''C'' then Inr (Response 200 [] (Some \<lparr>data = Some ''eA=='', bytes_read = Some 1\<rparr>))
      else Inr (Response 500 ''INTERNAL_ERROR'' None))"

definition example_decode :: "string \<Rightarrow> string" where
  "example_decode s = (if s = ''e30='' then ''{}'' else if s = ''eA=='' then ''x'' else [])"

definition example_parse :: "string \<Rightarrow> string option" where
  "example_parse s = (if s = ''{}'' then Some ''{}'' else None)"

definition example_paged_store :: paged_store where
  "example_paged_store path offset attempt = example_store path"


section \<open>Readiness poller\<close>

text \<open>
  The page keeps the document id, the batch path, the three artifacts and the flag
  \<open>allReady\<close> in React state. The polling effect depends on \<open>[pdfId, batchPath, allReady]\<close>:
  when one of them changes, React runs the cleanup of the effect and then the effect again.
  The steps of the page between two suspension points are modelled as events.
\<close>

record 'j page =
  pdfId :: "string option"
  batchPath :: "string option"
  allReady :: bool
  summaryRow :: "'j option"
  bench :: "'j option"
  gapData :: "'j option"
  fetching :: bool

text \<open>
  One run of the effect: the values its closure captured, its \<open>cancelled\<close> flag, whether its
  timer is pending, and whether its \<open>tick\<close> is suspended at \<open>await doFetchAll(...)\<close>.
\<close>

record effect =
  e_pdfId :: string
  e_batchPath :: "string option"
  e_allReady :: bool
  cancelled :: bool
  timer :: bool
  awaiting :: bool

record 'j poller =
  page :: "'j page"
  effects :: "effect list"

text \<open>
  What \<open>doFetchAll\<close> gets back: \<open>Fetch_failed\<close> when \<open>fetch\<close> rejects, the response is not ok
  or its body is not JSON (the \<open>catch\<close> branch), else the unified readiness response.
\<close>

datatype 'j fetched =
    Fetch_failed
  | Readiness (ready_all: bool) (summary: "'j option") (benchmark: "'j option") (gap: "'j option")

text \<open>\<open>doFetchAll\<close> before and after its \<open>await\<close>.\<close>

definition doFetchAll_start :: "'j page \<Rightarrow> 'j page" where
  "doFetchAll_start p = p\<lparr>fetching := True\<rparr>"

definition doFetchAll_resume :: "'j fetched \<Rightarrow> 'j page \<Rightarrow> 'j page" where
  "doFetchAll_resume j p =
     (case j of
        Fetch_failed \<Rightarrow> p
      | Readiness readyAll s b g \<Rightarrow>
          if readyAll
          then p\<lparr>summaryRow := s, bench := b, gapData := g, allReady := True\<rparr>
          else p\<lparr>allReady := False\<rparr>)
     \<lparr>fetching := False\<rparr>"

text \<open>\<open>tick\<close> up to its \<open>await\<close>, and from there on.\<close>

definition tick_start :: "'j page \<Rightarrow> effect \<Rightarrow> 'j page \<times> effect" where
  "tick_start p e =
     (if cancelled e then (p, e) else (doFetchAll_start p, e\<lparr>awaiting := True\<rparr>))"

definition tick_resume :: "effect \<Rightarrow> effect" where
  "tick_resume e =
     (if cancelled e then e\<lparr>awaiting := False\<rparr>
      else if \<not> e_allReady e then e\<lparr>awaiting := False, timer := True\<rparr>
      else e\<lparr>awaiting := False\<rparr>)"

text \<open>The cleanup of an effect, and the effect itself: a new closure whose \<open>tick\<close> runs at once.\<close>

definition cleanup :: "effect \<Rightarrow> effect" where
  "cleanup e = e\<lparr>cancelled := True, timer := False\<rparr>"

definition run_effect :: "'j poller \<Rightarrow> 'j poller" where
  "run_effect s =
     (case pdfId (page s) of
        None \<Rightarrow> s
      | Some pid \<Rightarrow>
          (let e = \<lparr>e_pdfId = pid, e_batchPath = batchPath (page s), e_allReady = allReady (page s),
                    cancelled = False, timer = False, awaiting = False\<rparr>;
               (p', e') = tick_start (page s) e
           in \<lparr>page = p', effects = effects s @ [e']\<rparr>))"

definition deps :: "'j page \<Rightarrow> string option \<times> string option \<times> bool" where
  "deps p = (pdfId p, batchPath p, allReady p)"

text \<open>
  A render after the state went from \<open>old\<close> to the page of \<open>s\<close>: the effect is run again only
  if a dependency changed. Only the latest run can still be live, and the cleanup of a run
  that is already cleaned up changes nothing.
\<close>

definition render :: "'j page \<Rightarrow> 'j poller \<Rightarrow> 'j poller" where
  "render old s =
     (if deps (page s) \<noteq> deps old
      then run_effect (s\<lparr>effects := map cleanup (effects s)\<rparr>)
      else s)"

text \<open>
  \<open>resetState\<close> (called when a file is chosen and by ``back to upload'') and the state updates
  after the upload was accepted (\<open>setPdfId\<close>, \<open>setBatchPath\<close>).
\<close>

definition resetState :: "'j page \<Rightarrow> 'j page" where
  "resetState p =
     p\<lparr>pdfId := None, batchPath := None, allReady := False,
       summaryRow := None, bench := None, gapData := None\<rparr>"

datatype 'j event =
    Reset_state
  | Invoked string string
  | Arrive nat "'j fetched"
  | Timeout nat

definition step :: "'j poller \<Rightarrow> 'j event \<Rightarrow> 'j poller" where
  "step s ev =
     (case ev of
        Reset_state \<Rightarrow> render (page s) (s\<lparr>page := resetState (page s)\<rparr>)
      | Invoked pid batch \<Rightarrow>
          render (page s) (s\<lparr>page := (page s)\<lparr>pdfId := Some pid, batchPath := Some batch\<rparr>\<rparr>)
      | Arrive n j \<Rightarrow>
          if n < length (effects s) \<and> awaiting (effects s ! n)
          then render (page s)
                 \<lparr>page = doFetchAll_resume j (page s),
                  effects = (effects s)[n := tick_resume (effects s ! n)]\<rparr>
          else s
      | Timeout n \<Rightarrow>
          if n < length (effects s) \<and> timer (effects s ! n)
          then (let (p', e') = tick_start (page s) ((effects s ! n)\<lparr>timer := False\<rparr>)
                in \<lparr>page = p', effects = (effects s)[n := e']\<rparr>)
          else s)"

definition initial :: "'j poller" where
  "initial =
     \<lparr>page = \<lparr>pdfId = None, batchPath = None, allReady = False, summaryRow = None,
              bench = None, gapData = None, fetching = False\<rparr>,
      effects = []\<rparr>"

definition run :: "'j event list \<Rightarrow> 'j poller" where
  "run evs = foldl step initial evs"


section \<open>Properties of the double arithmetic\<close>

lemma rne_of_int [simp]: "rne (real_of_int k) = k"
  by (simp add: rne_def)

lemma rne_bounds: "\<bar>real_of_int (rne x) - x\<bar> \<le> 1 / 2"
  unfolding rne_def Let_def by (auto; linarith)

lemma rne_mono: "x \<le> y \<Longrightarrow> rne x \<le> rne y"
proof -
  assume xy: "x \<le> y"
  have fl: "\<lfloor>x\<rfloor> \<le> \<lfloor>y\<rfloor>" using xy by (rule floor_mono)
  show ?thesis
  proof (cases "\<lfloor>x\<rfloor> = \<lfloor>y\<rfloor>")
    case True
    with xy show ?thesis unfolding rne_def Let_def by auto
  next
    case False
    with fl have "\<lfloor>x\<rfloor> + 1 \<le> \<lfloor>y\<rfloor>" by simp
    moreover have "rne x \<le> \<lfloor>x\<rfloor> + 1" unfolding rne_def Let_def by auto
    moreover have "\<lfloor>y\<rfloor> \<le> rne y" unfolding rne_def Let_def by auto
    ultimately show ?thesis by linarith
  qed
qed

text \<open>The exponent is the one that brackets \<open>x\<close> between two powers of two.\<close>

lemma up_spec:
  "1 \<le> x \<Longrightarrow> e \<le> 1024 \<Longrightarrow>
     e \<le> up x e \<and> up x e \<le> 1024 \<and> 2 powi (up x e - e) \<le> x
     \<and> (up x e < 1024 \<longrightarrow> x < 2 powi (up x e - e + 1))"
proof (induction x e rule: up.induct)
  case (1 x e)
  show ?case
  proof (cases "2 \<le> x \<and> e < 1024")
    case True
    then have u: "up x e = up (x / 2) (e + 1)" by (subst up.simps) simp
    from True 1 have IH: "e + 1 \<le> up (x / 2) (e + 1) \<and> up (x / 2) (e + 1) \<le> 1024
        \<and> 2 powi (up (x / 2) (e + 1) - (e + 1)) \<le> x / 2
        \<and> (up (x / 2) (e + 1) < 1024 \<longrightarrow> x / 2 < 2 powi (up (x / 2) (e + 1) - (e + 1) + 1))"
      by simp
    have p: "(2::real) powi (r - e) = 2 * 2 powi (r - (e + 1))" for r
      using power_int_add [of "2::real" 1 "r - (e + 1)"] by (simp add: algebra_simps)
    have q: "(2::real) powi (r - e + 1) = 2 * 2 powi (r - (e + 1) + 1)" for r
      using power_int_add [of "2::real" 1 "r - (e + 1) + 1"] by (simp add: algebra_simps)
    show ?thesis unfolding u p q using IH by auto
  next
    case False
    then have u: "up x e = e" by (subst up.simps) auto
    show ?thesis unfolding u using False 1 by auto
  qed
qed

lemma down_spec:
  "0 < x \<Longrightarrow> - 1022 \<le> e \<Longrightarrow>
     down x e \<le> e \<and> - 1022 \<le> down x e
     \<and> (- 1022 < down x e \<longrightarrow> 2 powi (down x e - e) \<le> x)
     \<and> (down x e < e \<longrightarrow> x < 2 powi (down x e - e + 1))"
proof (induction x e rule: down.induct)
  case (1 x e)
  show ?case
  proof (cases "x < 1 \<and> - 1022 < e")
    case True
    then have u: "down x e = down (2 * x) (e - 1)" by (subst down.simps) simp
    from True 1 have IH: "down (2 * x) (e - 1) \<le> e - 1 \<and> - 1022 \<le> down (2 * x) (e - 1)
        \<and> (- 1022 < down (2 * x) (e - 1) \<longrightarrow> 2 powi (down (2 * x) (e - 1) - (e - 1)) \<le> 2 * x)
        \<and> (down (2 * x) (e - 1) < e - 1 \<longrightarrow> 2 * x < 2 powi (down (2 * x) (e - 1) - (e - 1) + 1))"
      by simp
    have p: "(2::real) powi (r - (e - 1)) = 2 * 2 powi (r - e)" for r
      using power_int_add [of "2::real" 1 "r - e"] by (simp add: algebra_simps)
    have q: "(2::real) powi (r - (e - 1) + 1) = 2 * 2 powi (r - e + 1)" for r
      using power_int_add [of "2::real" 1 "r - e + 1"] by (simp add: algebra_simps)
    have last: "x < 2 powi (down (2 * x) (e - 1) - e + 1)"
    proof (cases "down (2 * x) (e - 1) < e - 1")
      case True
      with IH show ?thesis unfolding p q by simp
    next
      case False
      with IH have "down (2 * x) (e - 1) = e - 1" by simp
      then show ?thesis using True by simp
    qed
    show ?thesis unfolding u using IH last unfolding p q by auto
  next
    case False
    then have u: "down x e = e" by (subst down.simps) auto
    show ?thesis unfolding u using False 1 by auto
  qed
qed

lemma expo_range: "0 < x \<Longrightarrow> - 1022 \<le> expo x \<and> expo x \<le> 1024"
  using up_spec [of x 0] down_spec [of x 0] by (auto simp: expo_def)

lemma expo_lower: "0 < x \<Longrightarrow> - 1022 < expo x \<Longrightarrow> 2 powi expo x \<le> x"
  using up_spec [of x 0] down_spec [of x 0] by (auto simp: expo_def split: if_splits)

lemma expo_upper: "0 < x \<Longrightarrow> expo x < 1024 \<Longrightarrow> x < 2 powi (expo x + 1)"
proof (cases "1 \<le> x")
  case True
  assume "0 < x" "expo x < 1024"
  then show ?thesis using up_spec [of x 0] True by (auto simp: expo_def)
next
  case False
  assume x: "0 < x" "expo x < 1024"
  from False have d: "down x 0 = down (2 * x) (- 1)" by (subst down.simps) simp
  have "down (2 * x) (- 1) \<le> - 1" using down_spec [of "2 * x" "- 1"] x by simp
  then have "down x 0 < 0" using d by simp
  then show ?thesis using down_spec [of x 0] x False by (auto simp: expo_def)
qed

lemma expo_unique:
  assumes x: "0 < x" and r: "- 1022 \<le> e" "e \<le> 1024"
    and lo: "- 1022 < e \<Longrightarrow> 2 powi e \<le> x"
    and hi: "e < 1024 \<Longrightarrow> x < 2 powi (e + 1)"
  shows "expo x = e"
proof (rule ccontr)
  assume ne: "expo x \<noteq> e"
  note R = expo_range [OF x]
  show False
  proof (cases "expo x < e")
    case True
    then have "2 powi e \<le> x" using lo R by simp
    moreover have "x < 2 powi (expo x + 1)" using expo_upper [OF x] True r by simp
    moreover have "(2::real) powi (expo x + 1) \<le> 2 powi e"
      using True by (intro power_int_increasing) auto
    ultimately show False by linarith
  next
    case False
    with ne have gt: "e < expo x" by simp
    then have "2 powi expo x \<le> x" using expo_lower [OF x] r by simp
    moreover have "x < 2 powi (e + 1)" using hi gt R by simp
    moreover have "(2::real) powi (e + 1) \<le> 2 powi expo x"
      using gt by (intro power_int_increasing) auto
    ultimately show False by linarith
  qed
qed

lemma expo_mono:
  assumes x: "0 < x" and xy: "x \<le> y"
  shows "expo x \<le> expo y"
proof (rule ccontr)
  assume "\<not> expo x \<le> expo y"
  then have gt: "expo y < expo x" by simp
  have y: "0 < y" using x xy by simp
  note Rx = expo_range [OF x] and Ry = expo_range [OF y]
  have "2 powi expo x \<le> x" using expo_lower [OF x] gt Ry by simp
  moreover have "y < 2 powi (expo y + 1)" using expo_upper [OF y] gt Rx by simp
  moreover have "(2::real) powi (expo y + 1) \<le> 2 powi expo x"
    using gt by (intro power_int_increasing) auto
  ultimately show False using xy by linarith
qed

lemma expo_powi: "- 1022 \<le> e \<Longrightarrow> e \<le> 1024 \<Longrightarrow> expo (2 powi e) = e"
  by (rule expo_unique) (auto intro: power_int_strict_increasing)

text \<open>Rounding keeps the order.\<close>

lemma rp_alt: "rp x = real_of_int (rne (x / 2 powi (expo x - 52))) * 2 powi (expo x - 52)"
  by (simp add: rp_def Let_def)

lemma powi_split: "(2::real) powi e = 2 powi (e - 52) * 2 ^ 52"
  using power_int_add [of "2::real" "e - 52" 52] by simp

lemma powi_split1: "(2::real) powi (e + 1) = 2 powi (e - 52) * 2 ^ 53"
  using power_int_add [of "2::real" "e - 52" 53] by (simp add: add.commute)

lemma rp_lower:
  assumes x: "0 < x" and e: "- 1022 < expo x"
  shows "2 powi expo x \<le> rp x"
proof -
  let ?u = "(2::real) powi (expo x - 52)"
  have u: "0 < ?u" by simp
  have "2 powi expo x \<le> x" using expo_lower [OF x e] .
  then have "2 ^ 52 * ?u \<le> x" by (subst (asm) powi_split) (simp add: mult.commute)
  then have "real_of_int (2 ^ 52) \<le> x / ?u" using u by (simp add: pos_le_divide_eq)
  then have "rne (real_of_int (2 ^ 52)) \<le> rne (x / ?u)" by (rule rne_mono)
  then have "2 ^ 52 \<le> rne (x / ?u)" unfolding rne_of_int .
  then have "real_of_int (2 ^ 52) \<le> real_of_int (rne (x / ?u))" by (simp only: of_int_le_iff)
  then have "(2::real) ^ 52 \<le> real_of_int (rne (x / ?u))" by simp
  then have "2 ^ 52 * ?u \<le> real_of_int (rne (x / ?u)) * ?u" using u by simp
  then show ?thesis unfolding rp_alt by (subst powi_split) (simp add: mult.commute)
qed

lemma rp_upper:
  assumes x: "0 < x" and e: "expo x < 1024"
  shows "rp x \<le> 2 powi (expo x + 1)"
proof -
  let ?u = "(2::real) powi (expo x - 52)"
  have u: "0 < ?u" by simp
  have "x < 2 powi (expo x + 1)" using expo_upper [OF x e] .
  then have "x \<le> 2 ^ 53 * ?u" by (subst (asm) powi_split1) (simp add: mult.commute)
  then have "x / ?u \<le> real_of_int (2 ^ 53)" using u by (simp add: pos_divide_le_eq)
  then have "rne (x / ?u) \<le> rne (real_of_int (2 ^ 53))" by (rule rne_mono)
  then have "rne (x / ?u) \<le> 2 ^ 53" unfolding rne_of_int .
  then have "real_of_int (rne (x / ?u)) \<le> real_of_int (2 ^ 53)" by (simp only: of_int_le_iff)
  then have "real_of_int (rne (x / ?u)) \<le> 2 ^ 53" by simp
  then have "real_of_int (rne (x / ?u)) * ?u \<le> 2 ^ 53 * ?u" using u by simp
  then show ?thesis unfolding rp_alt by (subst powi_split1) (simp add: mult.commute)
qed

lemma rp_nonneg: "0 \<le> x \<Longrightarrow> 0 \<le> rp x"
proof -
  assume x: "0 \<le> x"
  have "0 \<le> x / 2 powi (expo x - 52)" using x by simp
  then have "rne 0 \<le> rne (x / 2 powi (expo x - 52))" by (intro rne_mono) simp
  then have "0 \<le> rne (x / 2 powi (expo x - 52))" by (simp add: rne_def)
  then show ?thesis unfolding rp_alt by simp
qed

lemma rp_mono:
  assumes x: "0 < x" and xy: "x \<le> y"
  shows "rp x \<le> rp y"
proof (cases "expo x = expo y")
  case True
  have "x / 2 powi (expo y - 52) \<le> y / 2 powi (expo y - 52)"
    using xy by (simp add: divide_right_mono)
  then have "rne (x / 2 powi (expo y - 52)) \<le> rne (y / 2 powi (expo y - 52))" by (rule rne_mono)
  then show ?thesis unfolding rp_alt True by (simp add: mult_right_mono)
next
  case False
  have y: "0 < y" using x xy by simp
  from False expo_mono [OF x xy] have lt: "expo x < expo y" by simp
  note Rx = expo_range [OF x] and Ry = expo_range [OF y]
  have "rp x \<le> 2 powi (expo x + 1)" using rp_upper [OF x] lt Ry by simp
  moreover have "(2::real) powi (expo x + 1) \<le> 2 powi expo y"
    using lt by (intro power_int_increasing) auto
  moreover have "2 powi expo y \<le> rp y" using rp_lower [OF y] lt Rx by simp
  ultimately show ?thesis by linarith
qed

lemma rnd_0 [simp]: "rnd 0 = 0"
  by (simp add: rnd_def)

lemma rnd_minus: "rnd (- x) = - rnd x"
  by (simp add: rnd_def)

lemma rnd_nonneg: "0 \<le> x \<Longrightarrow> 0 \<le> rnd x"
  using rp_nonneg [of x] by (simp add: rnd_def)

lemma rnd_mono: "x \<le> y \<Longrightarrow> rnd x \<le> rnd y"
proof -
  assume xy: "x \<le> y"
  consider "0 < x" | "x \<le> 0" "0 \<le> y" | "y < 0" by linarith
  then show ?thesis
  proof cases
    case 1
    then show ?thesis using rp_mono [OF 1 xy] xy by (simp add: rnd_def)
  next
    case 2
    have "0 \<le> rnd y" using 2 by (intro rnd_nonneg) simp
    moreover have "0 \<le> rnd (- x)" using 2 by (intro rnd_nonneg) simp
    ultimately show ?thesis unfolding rnd_minus by simp
  next
    case 3
    then have "0 < - y" "- y \<le> - x" using xy by simp_all
    then have "rp (- y) \<le> rp (- x)" by (rule rp_mono)
    then show ?thesis using 3 xy by (simp add: rnd_def)
  qed
qed

text \<open>A multiple of the unit in the last place is a double, and rounding a double changes nothing.\<close>

lemma divide_eqI: "u \<noteq> 0 \<Longrightarrow> x = a * u \<Longrightarrow> x / u = (a::real)"
  by simp

lemma rp_multiple:
  assumes x: "0 < x" and j: "expo x - 52 \<le> j" and k: "x = real_of_int k * 2 powi j"
  shows "rp x = x"
proof -
  let ?u = "(2::real) powi (expo x - 52)"
  have "(2::real) powi j = 2 powi (j - (expo x - 52)) * ?u"
    using power_int_add [of "2::real" "j - (expo x - 52)" "expo x - 52"] by simp
  also have "(2::real) powi (j - (expo x - 52)) = 2 ^ nat (j - (expo x - 52))"
    using j by (simp add: power_int_nonneg_exp)
  finally have pj: "(2::real) powi j = 2 ^ nat (j - (expo x - 52)) * ?u" .
  have "x = real_of_int k * 2 ^ nat (j - (expo x - 52)) * ?u"
    by (subst k, subst pj) simp
  then have "x / ?u = real_of_int k * 2 ^ nat (j - (expo x - 52))"
    by (intro divide_eqI) simp_all
  then have "x / ?u = real_of_int (k * 2 ^ nat (j - (expo x - 52)))" by simp
  then have "real_of_int (rne (x / ?u)) = x / ?u" by (simp only: rne_of_int)
  then show ?thesis unfolding rp_alt by simp
qed

lemma rp_idem:
  assumes x: "0 < x" and r: "0 < rp x"
  shows "rp (rp x) = rp x"
proof -
  let ?e = "expo x"
  note R = expo_range [OF x] and Rr = expo_range [OF r]
  have lo: "?e \<le> expo (rp x)"
  proof (cases "- 1022 < ?e")
    case True
    have "expo (2 powi ?e) \<le> expo (rp x)"
      using rp_lower [OF x True] by (intro expo_mono) simp_all
    then show ?thesis using R by (simp add: expo_powi)
  next
    case False
    then show ?thesis using R Rr by simp
  qed
  show ?thesis
  proof (cases "expo (rp x) = ?e")
    case True
    show ?thesis
    proof (rule rp_multiple [OF r, where j = "?e - 52" and k = "rne (x / 2 powi (?e - 52))"])
      show "expo (rp x) - 52 \<le> ?e - 52" by (simp add: True)
      show "rp x = real_of_int (rne (x / 2 powi (?e - 52))) * 2 powi (?e - 52)" by (rule rp_alt)
    qed
  next
    case False
    with lo have gt: "?e < expo (rp x)" by simp
    then have e: "?e < 1024" using Rr by simp
    have "2 powi expo (rp x) \<le> rp x" using expo_lower [OF r] gt R by simp
    moreover have "(2::real) powi (?e + 1) \<le> 2 powi expo (rp x)"
      using gt by (intro power_int_increasing) auto
    moreover have "rp x \<le> 2 powi (?e + 1)" using rp_upper [OF x e] .
    ultimately have eq: "rp x = 2 powi (?e + 1)" by linarith
    have "expo (rp x) = ?e + 1" unfolding eq using R e by (intro expo_powi) auto
    then show ?thesis
      by (intro rp_multiple [OF r, where j = "?e + 1" and k = 1]) (simp_all add: eq)
  qed
qed

lemma rnd_idem [simp]: "rnd (rnd x) = rnd x"
proof -
  have pos: "rnd (rnd y) = rnd y" if y: "0 < y" for y
  proof (cases "rp y = 0")
    case True
    then show ?thesis using y by (simp add: rnd_def)
  next
    case False
    with rp_nonneg [of y] y have r: "0 < rp y" by simp
    show ?thesis using y r rp_idem [OF y r] by (simp add: rnd_def)
  qed
  consider "0 < x" | "x = 0" | "0 < - x" by linarith
  then show ?thesis
  proof cases
    case 1 then show ?thesis by (rule pos)
  next
    case 2 then show ?thesis by simp
  next
    case 3
    from pos [OF 3] show ?thesis unfolding rnd_minus by simp
  qed
qed

text \<open>Whole numbers up to \<open>2^53\<close> are doubles.\<close>

lemma rnd_int:
  assumes k: "\<bar>k\<bar> \<le> 2 ^ 53"
  shows "rnd (real_of_int k) = real_of_int k"
proof -
  have pos: "rp (real_of_int n) = real_of_int n" if n: "0 < n" "n \<le> 2 ^ 53" for n :: int
  proof -
    let ?x = "real_of_int n"
    have x: "0 < ?x" using n by simp
    have "?x \<le> real_of_int (2 ^ 53)" using n by (simp only: of_int_le_iff)
    then have xle: "?x \<le> 2 powi 53" by simp
    have "expo ?x \<le> expo (2 powi 53)" using x xle by (rule expo_mono)
    then have e: "expo ?x \<le> 53" by (simp only: expo_powi)
    show ?thesis
    proof (cases "expo ?x \<le> 52")
      case True
      show ?thesis by (rule rp_multiple [OF x, where j = 0 and k = n]) (use True in simp_all)
    next
      case False
      with e have e53: "expo ?x = 53" by simp
      have "2 powi expo ?x \<le> ?x" using x by (rule expo_lower) (simp add: e53)
      with xle have eq: "?x = 2 powi 53" unfolding e53 by simp
      show ?thesis
      proof (rule rp_multiple [OF x, where j = 53 and k = 1])
        show "expo ?x - 52 \<le> 53" by (simp add: e53)
        show "?x = real_of_int 1 * 2 powi 53" using eq by simp
      qed
    qed
  qed
  consider "0 < k" | "k = 0" | "0 < - k" by linarith
  then show ?thesis
  proof cases
    case 1 then show ?thesis using pos [of k] k by (simp add: rnd_def)
  next
    case 2 then show ?thesis by simp
  next
    case 3
    then have "rp (real_of_int (- k)) = real_of_int (- k)" using k by (intro pos) simp_all
    then show ?thesis using 3 by (simp add: rnd_def)
  qed
qed

text \<open>Below \<open>2^(k+1)\<close> the rounding error is at most \<open>2^(k-53)\<close>, half a unit in the last place.\<close>

lemma rp_error:
  assumes x: "0 < x"
  shows "\<bar>rp x - x\<bar> \<le> 2 powi (expo x - 53)"
proof -
  let ?u = "(2::real) powi (expo x - 52)"
  have u: "0 < ?u" by simp
  have "\<bar>real_of_int (rne (x / ?u)) - x / ?u\<bar> * ?u \<le> 1 / 2 * ?u"
    using rne_bounds [of "x / ?u"] u by (intro mult_right_mono) simp_all
  moreover have "\<bar>real_of_int (rne (x / ?u)) - x / ?u\<bar> * ?u = \<bar>rp x - x\<bar>"
  proof -
    have "rp x - x = (real_of_int (rne (x / ?u)) - x / ?u) * ?u"
      unfolding rp_alt by (simp add: algebra_simps)
    then have "\<bar>rp x - x\<bar> = \<bar>real_of_int (rne (x / ?u)) - x / ?u\<bar> * \<bar>?u\<bar>"
      by (simp only: abs_mult)
    then show ?thesis by simp
  qed
  moreover have "1 / 2 * ?u = 2 powi (expo x - 53)"
    using power_int_add [of "2::real" "expo x - 53" 1] by simp
  ultimately show ?thesis by simp
qed

lemma rnd_error:
  assumes x: "\<bar>x\<bar> < 2 powi (k + 1)" and k: "- 1022 \<le> k" "k < 1024"
  shows "\<bar>rnd x - x\<bar> \<le> 2 powi (k - 53)"
proof -
  have pos: "\<bar>rp y - y\<bar> \<le> 2 powi (k - 53)" if y: "0 < y" "y < 2 powi (k + 1)" for y
  proof -
    have "expo y \<le> expo (2 powi (k + 1))" using y by (intro expo_mono) simp_all
    then have "expo y \<le> k + 1" using k by (simp add: expo_powi)
    moreover have "expo y \<noteq> k + 1"
    proof
      assume e: "expo y = k + 1"
      have "2 powi expo y \<le> y" using y(1) by (rule expo_lower) (use e k in simp)
      then show False using y(2) e by simp
    qed
    ultimately have "expo y - 53 \<le> k - 53" by simp
    then have "(2::real) powi (expo y - 53) \<le> 2 powi (k - 53)"
      by (intro power_int_increasing) simp_all
    then show ?thesis using rp_error [OF y(1)] by linarith
  qed
  consider "0 < x" | "x = 0" | "0 < - x" by linarith
  then show ?thesis
  proof cases
    case 1 then show ?thesis using pos [of x] x by (simp add: rnd_def)
  next
    case 2 then show ?thesis by simp
  next
    case 3
    then have "\<bar>rp (- x) - (- x)\<bar> \<le> 2 powi (k - 53)" using x by (intro pos) simp_all
    then show ?thesis using 3 by (simp add: rnd_def)
  qed
qed

text \<open>The operations on numbers.\<close>

lemma expo_MAX_VALUE: "expo MAX_VALUE = 1023"
  by (rule expo_unique) (simp_all add: MAX_VALUE_def)

lemma rnd_MAX_VALUE: "rnd MAX_VALUE = MAX_VALUE"
proof -
  have pos: "0 < MAX_VALUE" by (simp add: MAX_VALUE_def)
  have "rp MAX_VALUE = MAX_VALUE"
    by (rule rp_multiple [OF pos, where j = 971 and k = "2 ^ 53 - 1"])
      (simp_all add: expo_MAX_VALUE, simp add: MAX_VALUE_def)
  then show ?thesis using pos by (simp add: rnd_def)
qed

lemma rnd_bounded: "\<bar>x\<bar> \<le> MAX_VALUE \<Longrightarrow> \<bar>rnd x\<bar> \<le> MAX_VALUE"
proof -
  assume "\<bar>x\<bar> \<le> MAX_VALUE"
  then have "x \<le> MAX_VALUE" "- MAX_VALUE \<le> x" by simp_all
  then have "rnd x \<le> rnd MAX_VALUE" "rnd (- MAX_VALUE) \<le> rnd x" by (simp_all add: rnd_mono)
  then show ?thesis by (simp add: rnd_minus rnd_MAX_VALUE)
qed

lemma Round_Fin: "\<bar>x\<bar> \<le> MAX_VALUE \<Longrightarrow> Round x = Fin (rnd x)"
  using rnd_bounded [of x] by (auto simp: Round_def Let_def)

lemma Round_not_NaN [simp]: "Round x \<noteq> NaN"
  by (simp add: Round_def Let_def)

lemma Round_eq_Fin: "Round x = Fin y \<Longrightarrow> y = rnd x \<and> \<bar>y\<bar> \<le> MAX_VALUE"
  by (auto simp: Round_def Let_def split: if_splits)

lemma Round_double: "Round x = Fin y \<Longrightarrow> double y"
proof -
  assume r: "Round x = Fin y"
  then have y: "y = rnd x" "\<bar>y\<bar> \<le> MAX_VALUE" using Round_eq_Fin by blast+
  have "Round y = Fin (rnd y)" using y(2) by (rule Round_Fin)
  then show ?thesis unfolding double_def by (simp add: y(1))
qed

lemma double_rnd: "double x \<Longrightarrow> rnd x = x"
  unfolding double_def using Round_eq_Fin [of x x] by simp

lemma MAX_VALUE_large: "2 ^ 53 \<le> MAX_VALUE"
  by (simp add: MAX_VALUE_def)

lemma double_int: "\<bar>k\<bar> \<le> 2 ^ 53 \<Longrightarrow> double (real_of_int k)"
proof -
  assume k: "\<bar>k\<bar> \<le> 2 ^ 53"
  then have "real_of_int \<bar>k\<bar> \<le> real_of_int (2 ^ 53)" by (simp only: of_int_le_iff)
  then have "\<bar>real_of_int k\<bar> \<le> MAX_VALUE" using MAX_VALUE_large by simp
  then show ?thesis unfolding double_def by (simp add: Round_Fin rnd_int [OF k])
qed

lemma Round_mono: "x \<le> y \<Longrightarrow> le_num (Round x) (Round y)"
  using rnd_mono [of x y] by (auto simp: Round_def Let_def)

lemma rnd_1: "rnd 1 = 1"
  using rnd_int [of 1] by simp

lemma Round_unit:
  assumes "0 \<le> q" "q \<le> 1"
  shows "Round q = Fin (rnd q) \<and> 0 \<le> rnd q \<and> rnd q \<le> 1"
proof -
  have a: "0 \<le> rnd q" using assms(1) by (rule rnd_nonneg)
  have b: "rnd q \<le> 1" using rnd_mono [OF assms(2)] by (simp add: rnd_1)
  have "\<bar>q\<bar> \<le> MAX_VALUE" using assms MAX_VALUE_large by simp
  then show ?thesis using a b by (simp add: Round_Fin)
qed

lemma add_Fin_mono: "le_num X Y \<Longrightarrow> le_num (add (Fin b) X) (add (Fin b) Y)"
proof (cases X; cases Y)
  fix x y
  assume "le_num X Y" "X = Fin x" "Y = Fin y"
  then show ?thesis by (simp add: Round_mono)
qed (auto simp: Round_def Let_def)

text \<open>Evaluation of the arithmetic on given numbers.\<close>

lemmas double_eval = Round_def rnd_def rp_def expo_def up.simps down.simps rne_def Let_def
  MAX_VALUE_def sub_def


section \<open>Theorems: trajectory derivation\<close>

text \<open>The values derived for the example company.\<close>

lemma example_derivation:
  "derive N example_company =
     \<lparr>s1b = Some (Fin 100), s2b = Some (Fin 50), s12b = Some (Fin 150),
      s1t = Some (Fin (8162774324609025 / 140737488355328)),
      s2t = Some (Fin (8162774324609025 / 281474976710656)),
      s12t = Some (Fin (6122080743456769 / 70368744177664))\<rparr>"
  by (simp add: derive_def derive_steps_def example_company_def sf_def double_eval)

text \<open>
  Claim C1, as the code computes it. For the example company the derivation gives the
  combined baseline 150, the fraction 0.42 (the double nearest to it), the combined target
  \<open>150 * (1 - 0.42) = 87.00000000000001\<close> and the split targets \<open>58.00000000000001\<close> and
  \<open>29.000000000000004\<close>, which exceed 87, 58 and 29 by \<open>2^-46\<close>, \<open>2^-47\<close> and \<open>2^-48\<close>. In
  general, with \<open>v\<close> the derived values and every operation a double operation: the combined
  baseline is the sum of the scope baselines when it is missing and both are present, and is
  left as read otherwise; a missing combined target becomes \<open>s12b * (1 - rf)\<close> when the
  reduction and the combined baseline are present (\<open>rf\<close> is the reduction, divided by 100
  when above 1), and an explicit one is kept; a combined target present at that point is
  split in proportion to the baselines, when both are present with a positive sum, into
  whichever scope target is missing, and explicit scope targets are kept; the split does not
  happen without a combined target, without both baselines or with a sum that is not
  positive; a combined target still missing becomes the sum of the two scope targets when
  both are present, and stays missing otherwise.
\<close>

theorem trajectory_derivation:
  "derive N example_company =
     \<lparr>s1b = Some (Fin 100), s2b = Some (Fin 50), s12b = Some (Fin 150),
      s1t = Some (Fin (58 + 1 / 2 ^ 47)), s2t = Some (Fin (29 + 1 / 2 ^ 48)),
      s12t = Some (Fin (87 + 1 / 2 ^ 46))\<rparr>
   \<and> divide_num (Fin 42) (Fin 100) = Fin (rnd (42 / 100))
   \<and> (let v = derive_steps b1 b2 b12_0 t1_0 t2_0 t12_0 redRaw
      in s1b v = b1 \<and> s2b v = b2
         \<and> (b12_0 = None \<and> b1 = Some a \<and> b2 = Some b \<longrightarrow> s12b v = Some (add a b))
         \<and> (b12_0 \<noteq> None \<or> b1 = None \<or> b2 = None \<longrightarrow> s12b v = b12_0)
         \<and> (t12_0 = None \<and> redRaw = Some r \<and> s12b v = Some B \<longrightarrow>
              s12t v = Some (mul B (sub (Fin 1)
                                     (if less_num (Fin 1) r then divide_num r (Fin 100) else r))))
         \<and> (t12_0 \<noteq> None \<longrightarrow> s12t v = t12_0)
         \<and> ((t12_0 \<noteq> None \<or> (redRaw \<noteq> None \<and> s12b v \<noteq> None)) \<and> s12t v = Some T
              \<and> b1 = Some a \<and> b2 = Some b \<and> less_num (Fin 0) (add a b) \<longrightarrow>
              (t1_0 = None \<longrightarrow> s1t v = Some (mul T (divide_num a (add a b))))
              \<and> (t2_0 = None \<longrightarrow> s2t v = Some (mul T (divide_num b (add a b)))))
         \<and> (t1_0 \<noteq> None \<longrightarrow> s1t v = t1_0)
         \<and> (t2_0 \<noteq> None \<longrightarrow> s2t v = t2_0)
         \<and> ((t12_0 = None \<and> (redRaw = None \<or> s12b v = None)) \<or> b1 = None \<or> b2 = None
              \<or> (b1 = Some a \<and> b2 = Some b \<and> \<not> less_num (Fin 0) (add a b)) \<longrightarrow>
              s1t v = t1_0 \<and> s2t v = t2_0)
         \<and> (t12_0 = None \<and> (redRaw = None \<or> s12b v = None) \<and> s1t v = Some x \<and> s2t v = Some y \<longrightarrow>
              s12t v = Some (add x y))
         \<and> (t12_0 = None \<and> (redRaw = None \<or> s12b v = None) \<and> (s1t v = None \<or> s2t v = None) \<longrightarrow>
              s12t v = None))"
proof -
  have ex: "derive N example_company =
     \<lparr>s1b = Some (Fin 100), s2b = Some (Fin 50), s12b = Some (Fin 150),
      s1t = Some (Fin (58 + 1 / 2 ^ 47)), s2t = Some (Fin (29 + 1 / 2 ^ 48)),
      s12t = Some (Fin (87 + 1 / 2 ^ 46))\<rparr>"
    unfolding example_derivation by simp
  have rf: "divide_num (Fin 42) (Fin 100) = Fin (rnd (42 / 100))"
    by (simp add: double_eval)
  show ?thesis
    unfolding Let_def
    apply (intro conjI)
                 apply (rule ex)
                apply (rule rf)
               apply (auto simp: derive_steps_def Let_def split: option.splits)
    done
qed

theorem trajectory_derivation_witness:
  "s12b (derive_steps (Some (Fin 100)) (Some (Fin 50)) None None None None (Some (Fin 42)))
     = Some (Fin 150)
   \<and> s12t (derive_steps (Some (Fin 100)) (Some (Fin 50)) None None None None (Some (Fin 42)))
     = Some (Fin (6122080743456769 / 70368744177664))
   \<and> s1t (derive_steps (Some (Fin 100)) (Some (Fin 50)) None None None None (Some (Fin 42)))
     = Some (Fin (8162774324609025 / 140737488355328))
   \<and> s2t (derive_steps (Some (Fin 100)) (Some (Fin 50)) None None None None (Some (Fin 42)))
     = Some (Fin (8162774324609025 / 281474976710656))
   \<and> s12t (derive_steps None None None (Some (Fin 30)) (Some (Fin 20)) None None) = Some (Fin 50)"
proof -
  let ?v = "derive_steps (Some (Fin 100)) (Some (Fin 50)) None None None None (Some (Fin 42))"
  note t = trajectory_derivation [where ?b1.0 = "Some (Fin 100)" and ?b2.0 = "Some (Fin 50)"
      and ?b12_0.0 = None and ?t1_0.0 = None and ?t2_0.0 = None and ?t12_0.0 = None
      and redRaw = "Some (Fin 42)" and a = "Fin 100" and b = "Fin 50" and r = "Fin 42"
      and B = "Fin 150" and T = "Fin (6122080743456769 / 70368744177664)", unfolded Let_def]
  from t have 1: "s12b ?v = Some (Fin 150)"
    by (simp add: double_eval)
  from t 1 have 2: "s12t ?v = Some (Fin (6122080743456769 / 70368744177664))"
    by (simp add: double_eval)
  from t 1 2 have 3: "s1t ?v = Some (Fin (8162774324609025 / 140737488355328))"
    "s2t ?v = Some (Fin (8162774324609025 / 281474976710656))"
    by (simp_all add: double_eval)
  note u = trajectory_derivation [where ?b1.0 = None and ?b2.0 = None and ?b12_0.0 = None
      and ?t1_0.0 = "Some (Fin 30)" and ?t2_0.0 = "Some (Fin 20)" and ?t12_0.0 = None
      and redRaw = None and x = "Fin 30" and y = "Fin 20", unfolded Let_def]
  from u have 4: "s12t (derive_steps None None None (Some (Fin 30)) (Some (Fin 20)) None None)
                    = Some (Fin 50)"
    by (simp add: double_eval)
  show ?thesis using 1 2 3 4 by blast
qed

text \<open>
  The claim as stated fails in the example: the targets that the code derives are not 87, 58
  and 29 but the doubles next above them, as \<open>1 - 0.42\<close> is \<open>0.5800000000000001\<close>.
\<close>

theorem trajectory_derivation_counterexample:
  "s12t (derive readDigits example_company) = Some (Fin (6122080743456769 / 70368744177664))
   \<and> s12t (derive readDigits example_company) \<noteq> Some (Fin 87)
   \<and> s1t (derive readDigits example_company) = Some (Fin (8162774324609025 / 140737488355328))
   \<and> s1t (derive readDigits example_company) \<noteq> Some (Fin 58)
   \<and> s2t (derive readDigits example_company) = Some (Fin (8162774324609025 / 281474976710656))
   \<and> s2t (derive readDigits example_company) \<noteq> Some (Fin 29)
   \<and> sub (Fin 1) (divide_num (Fin 42) (Fin 100)) = Fin (326510972984361 / 562949953421312)"
proof -
  have one: "sub (Fin 1) (divide_num (Fin 42) (Fin 100)) = Fin (326510972984361 / 562949953421312)"
    by (simp add: double_eval)
  show ?thesis
    unfolding example_derivation one by simp
qed


section \<open>Theorems: trajectory series\<close>

lemma sub_Fin: "sub (Fin a) (Fin b) = Round (a - b)"
  by (simp add: sub_def)

lemma sub_cases: "(\<exists>z. sub t b = Round z) \<or> sub t b = PInf \<or> sub t b = NInf \<or> sub t b = NaN"
  by (cases t; cases b) (auto simp: sub_def)

lemma mul_one: "mul (sub t b) (Fin 1) = sub t b"
proof -
  have r: "mul (Round z) (Fin 1) = Round z" for z
  proof (cases "Round z")
    case (Fin d)
    then have "double d" by (rule Round_double)
    then show ?thesis unfolding Fin by (simp add: double_def)
  qed simp_all
  show ?thesis using sub_cases [of t b] r by auto
qed

text \<open>
  For whole-numbered years below \<open>2^53\<close> the loop over the years ends and produces the years
  from the start to the target, one by one.
\<close>

lemma next_year:
  assumes "- (2 ^ 53) \<le> i" "i < 2 ^ 53"
  shows "rnd (real_of_int i + 1) = real_of_int (i + 1)"
proof -
  have "\<bar>i + 1\<bar> \<le> 2 ^ 53" using assms by simp
  then have "rnd (real_of_int (i + 1)) = real_of_int (i + 1)" by (rule rnd_int)
  then show ?thesis by simp
qed

lemma years_from_int:
  "- (2 ^ 53) \<le> a \<Longrightarrow> b < 2 ^ 53 \<Longrightarrow>
     years_from (real_of_int a) (real_of_int b) = Some (map real_of_int [a..b])"
proof (induction a b rule: upto.induct)
  case (1 i j)
  show ?case
  proof (cases "i \<le> j")
    case True
    have n: "rnd (real_of_int i + 1) = real_of_int (i + 1)"
      using 1(2,3) True by (intro next_year) simp_all
    have "years_from (real_of_int (i + 1)) (real_of_int j) = Some (map real_of_int [i + 1..j])"
      using 1 True by simp
    then show ?thesis
      using True by (subst years_from.simps) (simp add: n upto_rec1)
  next
    case False
    then show ?thesis by (subst years_from.simps) simp
  qed
qed

lemma rows_from_int:
  "- (2 ^ 53) \<le> a \<Longrightarrow> b < 2 ^ 53 \<Longrightarrow>
   rows_from (real_of_int a) sy (real_of_int b) v =
     Some (map (\<lambda>y. \<lparr>year = real_of_int y,
                      Scope_1 = lerp (s1b v) (s1t v) sy (real_of_int b) (real_of_int y),
                      Scope_2 = lerp (s2b v) (s2t v) sy (real_of_int b) (real_of_int y),
                      Scope_1_2 = lerp (s12b v) (s12t v) sy (real_of_int b) (real_of_int y)\<rparr>)
             [a..b])"
proof (induction a b rule: upto.induct)
  case (1 i j)
  let ?row = "\<lambda>y. \<lparr>year = real_of_int y,
                Scope_1 = lerp (s1b v) (s1t v) sy (real_of_int j) (real_of_int y),
                Scope_2 = lerp (s2b v) (s2t v) sy (real_of_int j) (real_of_int y),
                Scope_1_2 = lerp (s12b v) (s12t v) sy (real_of_int j) (real_of_int y)\<rparr>"
  show ?case
  proof (cases "i \<le> j")
    case True
    have n: "rnd (real_of_int i + 1) = real_of_int (i + 1)"
      using 1(2,3) True by (intro next_year) simp_all
    have "rows_from (real_of_int (i + 1)) sy (real_of_int j) v = Some (map ?row [i + 1..j])"
      using 1 True by simp
    then show ?thesis
      using True by (subst rows_from.simps) (simp add: n upto_rec1)
  next
    case False
    then show ?thesis by (subst rows_from.simps) simp
  qed
qed

text \<open>The fraction of the way at the \<open>k\<close>-th of \<open>n\<close> years.\<close>

lemma fraction:
  assumes "k \<le> nat n" "0 < n"
  shows "divide_num (Fin (real k)) (Fin (real_of_int n)) = Fin (rnd (real k / real_of_int n))"
    and "0 \<le> rnd (real k / real_of_int n)" and "rnd (real k / real_of_int n) \<le> 1"
proof -
  have q: "0 \<le> real k / real_of_int n" "real k / real_of_int n \<le> 1"
    using assms by simp_all
  note u = Round_unit [OF q]
  show "divide_num (Fin (real k)) (Fin (real_of_int n)) = Fin (rnd (real k / real_of_int n))"
    using assms(2) u by simp
  show "0 \<le> rnd (real k / real_of_int n)" "rnd (real k / real_of_int n) \<le> 1"
    using u by simp_all
qed

lemma fraction_0: "0 < n \<Longrightarrow> divide_num (Fin (real 0)) (Fin (real_of_int n)) = Fin 0"
  using fraction(1) [of 0 n] by simp

lemma fraction_1: "0 < n \<Longrightarrow> divide_num (Fin (real (nat n))) (Fin (real_of_int n)) = Fin 1"
  using fraction(1) [of "nat n" n] by (simp add: rnd_1)

text \<open>The points of a series over the years \<open>sy, \<dots>, ty\<close>.\<close>

lemma make_series_points:
  assumes "sy < ty"
  shows "points (make_series (map real_of_int [sy..ty]) nm (Some b) (Some t)) =
           map (\<lambda>k. (real_of_int (sy + int k),
                     add b (mul (sub t b) (divide_num (Fin (real k)) (Fin (real_of_int (ty - sy)))))))
             [0..<nat (ty - sy + 1)]"
proof -
  have len: "int (length (map real_of_int [sy..ty])) - 1 = ty - sy"
    using assms by simp
  have ne: "ty - sy \<noteq> 0" using assms by simp
  have "points (make_series (map real_of_int [sy..ty]) nm (Some b) (Some t))
          = map (\<lambda>(i, y). (y, add b (mul (sub t b) (divide_num (Fin (real i)) (Fin (real_of_int (ty - sy)))))))
              (enumerate 0 (map real_of_int [sy..ty]))"
    unfolding make_series_def Let_def len using ne by simp
  also have "\<dots> = map (\<lambda>k. (real_of_int (sy + int k),
                     add b (mul (sub t b) (divide_num (Fin (real k)) (Fin (real_of_int (ty - sy)))))))
             [0..<nat (ty - sy + 1)]"
  proof (rule nth_equalityI)
    show "length (map (\<lambda>(i, y). (y, add b (mul (sub t b) (divide_num (Fin (real i)) (Fin (real_of_int (ty - sy)))))))
              (enumerate 0 (map real_of_int [sy..ty])))
          = length (map (\<lambda>k. (real_of_int (sy + int k),
                     add b (mul (sub t b) (divide_num (Fin (real k)) (Fin (real_of_int (ty - sy)))))))
             [0..<nat (ty - sy + 1)])"
      by simp
  next
    fix k
    assume "k < length (map (\<lambda>(i, y). (y, add b (mul (sub t b) (divide_num (Fin (real i)) (Fin (real_of_int (ty - sy)))))))
              (enumerate 0 (map real_of_int [sy..ty])))"
    then have k: "k < nat (ty - sy + 1)" by simp
    then have le: "sy + int k \<le> ty" by linarith
    show "map (\<lambda>(i, y). (y, add b (mul (sub t b) (divide_num (Fin (real i)) (Fin (real_of_int (ty - sy)))))))
              (enumerate 0 (map real_of_int [sy..ty])) ! k
          = map (\<lambda>k. (real_of_int (sy + int k),
                     add b (mul (sub t b) (divide_num (Fin (real k)) (Fin (real_of_int (ty - sy)))))))
             [0..<nat (ty - sy + 1)] ! k"
      using k le assms by (simp add: nth_enumerate_eq del: divide_num.simps)
  qed
  finally show ?thesis .
qed

lemma value_first:
  assumes "0 < n" "double b0" "sub t (Fin b0) = Fin d"
  shows "add (Fin b0) (mul (sub t (Fin b0)) (divide_num (Fin (real 0)) (Fin (real_of_int n)))) = Fin b0"
proof -
  have "Round 0 = Fin 0" by (simp add: Round_def MAX_VALUE_def)
  then show ?thesis
    unfolding fraction_0 [OF assms(1)] assms(3) using assms(2) by (simp add: double_def)
qed

lemma value_last:
  assumes "0 < n"
  shows "add b (mul (sub t b) (divide_num (Fin (real (nat n))) (Fin (real_of_int n)))) = add b (sub t b)"
  unfolding fraction_1 [OF assms] mul_one by (rule refl)

lemma value_last_exact:
  assumes "double t0" "double (t0 - b0)"
  shows "add (Fin b0) (sub (Fin t0) (Fin b0)) = Fin t0"
  using assms by (simp add: sub_Fin double_def)

lemma value_mono:
  assumes n: "0 < n" and ij: "i \<le> j" "j \<le> nat n" and d: "sub (Fin t0) (Fin b0) = Fin d"
  shows "(b0 \<le> t0 \<longrightarrow>
           le_num (add (Fin b0) (mul (sub (Fin t0) (Fin b0)) (divide_num (Fin (real i)) (Fin (real_of_int n)))))
             (add (Fin b0) (mul (sub (Fin t0) (Fin b0)) (divide_num (Fin (real j)) (Fin (real_of_int n))))))
       \<and> (t0 \<le> b0 \<longrightarrow>
           le_num (add (Fin b0) (mul (sub (Fin t0) (Fin b0)) (divide_num (Fin (real j)) (Fin (real_of_int n)))))
             (add (Fin b0) (mul (sub (Fin t0) (Fin b0)) (divide_num (Fin (real i)) (Fin (real_of_int n))))))"
proof -
  have i: "i \<le> nat n" using ij by simp
  have dv: "d = rnd (t0 - b0)" using d Round_eq_Fin [of "t0 - b0" d] by (simp add: sub_Fin)
  have q: "rnd (real i / real_of_int n) \<le> rnd (real j / real_of_int n)"
    using ij(1) n by (intro rnd_mono) (simp add: divide_right_mono)
  have up: "le_num (Round (d * rnd (real i / real_of_int n))) (Round (d * rnd (real j / real_of_int n)))"
    if "b0 \<le> t0"
  proof -
    have "0 \<le> d" unfolding dv using that by (intro rnd_nonneg) simp
    then show ?thesis using q by (intro Round_mono mult_left_mono)
  qed
  have down: "le_num (Round (d * rnd (real j / real_of_int n))) (Round (d * rnd (real i / real_of_int n)))"
    if "t0 \<le> b0"
  proof -
    have "rnd (t0 - b0) \<le> rnd 0" using that by (intro rnd_mono) simp
    then have "d \<le> 0" unfolding dv by simp
    then show ?thesis using q by (intro Round_mono mult_left_mono_neg)
  qed
  show ?thesis
    unfolding d fraction(1) [OF i n] fraction(1) [OF ij(2) n] mul.simps
    using up down by (auto intro: add_Fin_mono)
qed

lemma lerp_year:
  assumes "- (2 ^ 52) \<le> sy" "sy < ty" "ty \<le> 2 ^ 52" "k \<le> nat (ty - sy)"
  shows "lerp (Some b) (Some t) (real_of_int sy) (real_of_int ty) (real_of_int (sy + int k))
           = Some (add b (mul (sub t b) (divide_num (Fin (real k)) (Fin (real_of_int (ty - sy))))))"
proof -
  have "\<bar>int k\<bar> \<le> 2 ^ 53" "\<bar>ty - sy\<bar> \<le> 2 ^ 53" using assms by simp_all
  then have "double (real_of_int (int k))" "double (real_of_int (ty - sy))" by (simp_all only: double_int)
  then have "Round (real k) = Fin (real k)" "Round (real_of_int ty - real_of_int sy) = Fin (real_of_int (ty - sy))"
    by (simp_all add: double_def)
  then show ?thesis by (simp add: lerp_def sub_Fin)
qed

lemma lerp_missing:
  "lerp None v1 s e y = None"
  "lerp v0 None s e y = None"
  by (simp_all add: lerp_def split: option.splits)

lemma make_series_missing:
  "points (make_series yrs nm None v1) = []"
  "points (make_series yrs nm v0 None) = []"
  by (simp_all add: make_series_def split: option.splits)

text \<open>
  Claim C2, as the code computes it. Years are whole numbers \<open>sy < ty\<close> between \<open>-2^52\<close> and
  \<open>2^52\<close>, fewer than \<open>2^32\<close> of them. The loop over the years ends with the years from \<open>sy\<close>
  to \<open>ty\<close>. A series whose
  baseline \<open>b\<close> and target \<open>t\<close> are both resolved has \<open>ty - sy + 1\<close> points, one per year; the
  point of the \<open>k\<close>-th year after \<open>sy\<close> has the value \<open>b + (t - b) * (k / (ty - sy))\<close>, each
  operation a double operation. The first value is \<open>b\<close> when the difference \<open>t - b\<close> is
  finite; the last value is the double sum \<open>b + (t - b)\<close>, which is \<open>t\<close> when the difference
  \<open>t - b\<close> is a double, that is, was not rounded; and when the difference is finite the values
  do not decrease from year to year for \<open>b \<le> t\<close> and do not increase for \<open>t \<le> b\<close>. A series
  with a missing baseline or target has no points. \<open>lineSeries\<close> returns these three series,
  and nothing when the target year is not after the start year. The rows of the SBTi panel
  (\<open>buildLinearSeries\<close>) carry the same values, \<open>null\<close> for a scope with a missing baseline or
  target, and there are no rows when the target year is not after the start year.
\<close>

theorem trajectory_series:
  fixes sy ty :: int
  assumes "- (2 ^ 52) \<le> sy" "sy < ty" "ty \<le> 2 ^ 52" "ty - sy + 1 < 2 ^ 32"
  shows
    "years_from (real_of_int sy) (real_of_int ty) = Some (map real_of_int [sy..ty])
     \<and> (let pts = points (make_series (map real_of_int [sy..ty]) nm (Some b) (Some t))
        in length pts = nat (ty - sy + 1)
           \<and> map fst pts = map real_of_int [sy..ty]
           \<and> (\<forall>k < length pts.
                 pts ! k = (real_of_int (sy + int k),
                            add b (mul (sub t b)
                                    (divide_num (Fin (real k)) (Fin (real_of_int (ty - sy)))))))
           \<and> (\<forall>b0 d. b = Fin b0 \<and> double b0 \<and> sub t b = Fin d \<longrightarrow> snd (hd pts) = b)
           \<and> snd (last pts) = add b (sub t b)
           \<and> (\<forall>b0 t0. b = Fin b0 \<and> t = Fin t0 \<and> double t0 \<and> double (t0 - b0) \<longrightarrow>
                 snd (last pts) = t)
           \<and> (\<forall>b0 t0 d i j. b = Fin b0 \<and> t = Fin t0 \<and> sub t b = Fin d
                 \<and> i \<le> j \<and> j < length pts \<longrightarrow>
                 (b0 \<le> t0 \<longrightarrow> le_num (snd (pts ! i)) (snd (pts ! j)))
                 \<and> (t0 \<le> b0 \<longrightarrow> le_num (snd (pts ! j)) (snd (pts ! i)))))
     \<and> points (make_series yrs nm None v1) = []
     \<and> points (make_series yrs nm v0 None) = []
     \<and> (Number_js N (sbti_start_year c) = Some (real_of_int sy)
          \<and> Number_js N (sbti_target_year c) = Some (real_of_int ty) \<longrightarrow>
        lineSeries N (Some c) =
          Some [make_series (map real_of_int [sy..ty]) ''Scope 1''
                  (s1b (derive N c)) (s1t (derive N c)),
                make_series (map real_of_int [sy..ty]) ''Scope 2''
                  (s2b (derive N c)) (s2t (derive N c)),
                make_series (map real_of_int [sy..ty]) ''Scope 1+2''
                  (s12b (derive N c)) (s12t (derive N c))])
     \<and> (Number_js N (sbti_start_year c') = Some s' \<and> Number_js N (sbti_target_year c') = Some t'
          \<and> t' \<le> s' \<longrightarrow> lineSeries N (Some c') = Some [])
     \<and> buildLinearSeries (Some (real_of_int sy)) (Some (real_of_int ty)) v =
         Some (map (\<lambda>y. \<lparr>year = real_of_int y,
                    Scope_1 = lerp (s1b v) (s1t v) (real_of_int sy) (real_of_int ty) (real_of_int y),
                    Scope_2 = lerp (s2b v) (s2t v) (real_of_int sy) (real_of_int ty) (real_of_int y),
                    Scope_1_2 = lerp (s12b v) (s12t v) (real_of_int sy) (real_of_int ty) (real_of_int y)\<rparr>)
           [sy..ty])
     \<and> (\<forall>k \<le> nat (ty - sy).
           lerp (Some b) (Some t) (real_of_int sy) (real_of_int ty) (real_of_int (sy + int k))
             = Some (add b (mul (sub t b)
                             (divide_num (Fin (real k)) (Fin (real_of_int (ty - sy)))))))
     \<and> lerp None v1 s e y = None \<and> lerp v0 None s e y = None
     \<and> (t' \<le> s' \<longrightarrow> buildLinearSeries (Some s') (Some t') v = Some [])"
proof -
  let ?n = "nat (ty - sy + 1)"
  let ?val = "\<lambda>k. add b (mul (sub t b) (divide_num (Fin (real k)) (Fin (real_of_int (ty - sy)))))"
  let ?pts = "points (make_series (map real_of_int [sy..ty]) nm (Some b) (Some t))"
  have range: "- (2 ^ 53) \<le> sy" "ty < 2 ^ 53" using assms by simp_all
  have d: "0 < ty - sy" using assms by simp
  have yrs: "years_from (real_of_int sy) (real_of_int ty) = Some (map real_of_int [sy..ty])"
    using range by (rule years_from_int)
  have pts: "?pts = map (\<lambda>k. (real_of_int (sy + int k), ?val k)) [0..<?n]"
    using assms(2) by (rule make_series_points)
  have len: "length ?pts = ?n" by (simp add: pts)
  have pos: "0 < ?n" using assms by simp
  have ne: "?pts \<noteq> []" using pos len by auto
  have nth: "\<forall>k < length ?pts. ?pts ! k = (real_of_int (sy + int k), ?val k)"
    unfolding len by (simp add: pts del: divide_num.simps)
  have snd_nth: "snd (?pts ! k) = ?val k" if "k < ?n" for k
    using that by (simp add: pts del: divide_num.simps)
  have xs: "map fst ?pts = map real_of_int [sy..ty]"
  proof (rule nth_equalityI)
    show "length (map fst ?pts) = length (map real_of_int [sy..ty])" by (simp add: len)
  next
    fix k assume "k < length (map fst ?pts)"
    then have k: "k < ?n" by (simp add: len)
    then have "sy + int k \<le> ty" by linarith
    then show "map fst ?pts ! k = map real_of_int [sy..ty] ! k"
      using k by (simp add: pts del: divide_num.simps)
  qed
  have first: "\<forall>b0 d. b = Fin b0 \<and> double b0 \<and> sub t b = Fin d \<longrightarrow> snd (hd ?pts) = b"
  proof (intro allI impI)
    fix b0 d' assume h: "b = Fin b0 \<and> double b0 \<and> sub t b = Fin d'"
    have "snd (hd ?pts) = ?val 0" unfolding hd_conv_nth [OF ne] using pos by (rule snd_nth)
    also have "?val 0 = b"
    proof -
      from h have hb: "b = Fin b0" and hd: "double b0" and hs: "sub t (Fin b0) = Fin d'"
        by blast+
      show ?thesis unfolding hb by (rule value_first [OF d hd hs])
    qed
    finally show "snd (hd ?pts) = b" .
  qed
  have lastn: "?n - 1 = nat (ty - sy)" using assms by simp
  have final: "snd (last ?pts) = add b (sub t b)"
  proof -
    have "snd (last ?pts) = ?val (?n - 1)"
      unfolding last_conv_nth [OF ne] len using pos by (intro snd_nth) simp
    also have "\<dots> = add b (sub t b)" unfolding lastn using d by (rule value_last)
    finally show ?thesis .
  qed
  have exact: "\<forall>b0 t0. b = Fin b0 \<and> t = Fin t0 \<and> double t0 \<and> double (t0 - b0) \<longrightarrow>
                 snd (last ?pts) = t"
    unfolding final using value_last_exact by auto
  have mono: "\<forall>b0 t0 d i j. b = Fin b0 \<and> t = Fin t0 \<and> sub t b = Fin d
                 \<and> i \<le> j \<and> j < length ?pts \<longrightarrow>
                 (b0 \<le> t0 \<longrightarrow> le_num (snd (?pts ! i)) (snd (?pts ! j)))
                 \<and> (t0 \<le> b0 \<longrightarrow> le_num (snd (?pts ! j)) (snd (?pts ! i)))"
  proof (intro allI impI)
    fix b0 t0 d' i j
    assume h: "b = Fin b0 \<and> t = Fin t0 \<and> sub t b = Fin d' \<and> i \<le> j \<and> j < length ?pts"
    then have j: "j < ?n" and i: "i < ?n" and ij: "i \<le> j" by (simp_all add: len)
    have jn: "j \<le> nat (ty - sy)" using j by linarith
    from h have hb: "b = Fin b0" and ht: "t = Fin t0" and s: "sub (Fin t0) (Fin b0) = Fin d'"
      by blast+
    show "(b0 \<le> t0 \<longrightarrow> le_num (snd (?pts ! i)) (snd (?pts ! j)))
           \<and> (t0 \<le> b0 \<longrightarrow> le_num (snd (?pts ! j)) (snd (?pts ! i)))"
      unfolding snd_nth [OF i] snd_nth [OF j] unfolding hb ht
      by (rule value_mono [OF d ij jn s])
  qed
  have ls: "Number_js N (sbti_start_year c) = Some (real_of_int sy)
          \<and> Number_js N (sbti_target_year c) = Some (real_of_int ty) \<longrightarrow>
        lineSeries N (Some c) =
          Some [make_series (map real_of_int [sy..ty]) ''Scope 1''
                  (s1b (derive N c)) (s1t (derive N c)),
                make_series (map real_of_int [sy..ty]) ''Scope 2''
                  (s2b (derive N c)) (s2t (derive N c)),
                make_series (map real_of_int [sy..ty]) ''Scope 1+2''
                  (s12b (derive N c)) (s12t (derive N c))]"
    using assms(2) by (simp add: lineSeries_def Let_def yrs)
  have ls0: "Number_js N (sbti_start_year c') = Some s' \<and> Number_js N (sbti_target_year c') = Some t'
          \<and> t' \<le> s' \<longrightarrow> lineSeries N (Some c') = Some []"
    by (simp add: lineSeries_def)
  have panel: "buildLinearSeries (Some (real_of_int sy)) (Some (real_of_int ty)) v =
         Some (map (\<lambda>y. \<lparr>year = real_of_int y,
                    Scope_1 = lerp (s1b v) (s1t v) (real_of_int sy) (real_of_int ty) (real_of_int y),
                    Scope_2 = lerp (s2b v) (s2t v) (real_of_int sy) (real_of_int ty) (real_of_int y),
                    Scope_1_2 = lerp (s12b v) (s12t v) (real_of_int sy) (real_of_int ty) (real_of_int y)\<rparr>)
           [sy..ty])"
    using assms(2) by (simp add: buildLinearSeries_def rows_from_int [OF range])
  have panel0: "t' \<le> s' \<longrightarrow> buildLinearSeries (Some s') (Some t') v = Some []"
    by (simp add: buildLinearSeries_def)
  have lerps: "\<forall>k \<le> nat (ty - sy).
           lerp (Some b) (Some t) (real_of_int sy) (real_of_int ty) (real_of_int (sy + int k))
             = Some (?val k)"
    using lerp_year [OF assms(1-3)] by blast
  note facts = yrs len xs nth first final exact mono ls ls0 panel panel0 lerps
    make_series_missing lerp_missing
  show ?thesis
    unfolding Let_def by (intro conjI) (fact facts)+
qed

text \<open>
  The Scope 1 series of the example company, from 100 in 2020 to \<open>58.00000000000001\<close> in
  2030: the difference is a double, and the series ends at the target.
\<close>

theorem trajectory_series_witness:
  "- (2 ^ 52) \<le> (2020::int) \<and> (2020::int) < 2030 \<and> (2030::int) \<le> 2 ^ 52
   \<and> (2030::int) - 2020 + 1 < 2 ^ 32
   \<and> double 100 \<and> double (8162774324609025 / 140737488355328)
   \<and> double (8162774324609025 / 140737488355328 - 100)
   \<and> years_from 2020 2030 = Some (map real_of_int [2020..2030])
   \<and> lineSeries readDigits (Some example_company) =
       Some [make_series (map real_of_int [2020..2030]) ''Scope 1''
               (Some (Fin 100)) (Some (Fin (8162774324609025 / 140737488355328))),
             make_series (map real_of_int [2020..2030]) ''Scope 2''
               (Some (Fin 50)) (Some (Fin (8162774324609025 / 281474976710656))),
             make_series (map real_of_int [2020..2030]) ''Scope 1+2''
               (Some (Fin 150)) (Some (Fin (6122080743456769 / 70368744177664)))]
   \<and> length (points (make_series (map real_of_int [2020..2030]) ''Scope 1''
               (Some (Fin 100)) (Some (Fin (8162774324609025 / 140737488355328))))) = 11
   \<and> snd (hd (points (make_series (map real_of_int [2020..2030]) ''Scope 1''
               (Some (Fin 100)) (Some (Fin (8162774324609025 / 140737488355328)))))) = Fin 100
   \<and> snd (last (points (make_series (map real_of_int [2020..2030]) ''Scope 1''
               (Some (Fin 100)) (Some (Fin (8162774324609025 / 140737488355328))))))
       = Fin (8162774324609025 / 140737488355328)
   \<and> le_num (snd (points (make_series (map real_of_int [2020..2030]) ''Scope 1''
               (Some (Fin 100)) (Some (Fin (8162774324609025 / 140737488355328)))) ! 10))
        (snd (points (make_series (map real_of_int [2020..2030]) ''Scope 1''
               (Some (Fin 100)) (Some (Fin (8162774324609025 / 140737488355328)))) ! 3))
   \<and> map_option length
        (buildLinearSeries (Some 2020) (Some 2030) (derive readDigits example_company)) = Some 11"
proof -
  let ?t = "8162774324609025 / 140737488355328 :: real"
  let ?pts = "points (make_series (map real_of_int [2020..2030]) ''Scope 1''
               (Some (Fin 100)) (Some (Fin ?t)))"
  have h: "- (2 ^ 52) \<le> (2020::int)" "(2020::int) < 2030" "(2030::int) \<le> 2 ^ 52"
    "(2030::int) - 2020 + 1 < 2 ^ 32"
    by simp_all
  have db: "double 100" by (simp add: double_def double_eval)
  have dt: "double ?t" by (simp add: double_def double_eval)
  have dd: "double (?t - 100)" by (simp add: double_def double_eval)
  have s: "sub (Fin ?t) (Fin 100) = Fin (?t - 100)"
    using dd by (simp add: sub_Fin double_def)
  have y: "Number_js readDigits (sbti_start_year example_company) = Some (real_of_int 2020)
      \<and> Number_js readDigits (sbti_target_year example_company) = Some (real_of_int 2030)"
    by (simp add: example_company_def)
  note t = trajectory_series [OF h, where nm = "''Scope 1''" and b = "Fin 100" and t = "Fin ?t"
      and N = readDigits and c = example_company and v = "derive readDigits example_company",
      unfolded Let_def]
  note years = t [THEN conjunct1]
  note series = t [THEN conjunct2, THEN conjunct1]
  note rest = t [THEN conjunct2, THEN conjunct2, THEN conjunct2, THEN conjunct2]
  note len = series [THEN conjunct1]
  note first = series [THEN conjunct2, THEN conjunct2, THEN conjunct2, THEN conjunct1, rule_format]
  note exact = series [THEN conjunct2, THEN conjunct2, THEN conjunct2, THEN conjunct2,
      THEN conjunct2, THEN conjunct1, rule_format]
  note mono = series [THEN conjunct2, THEN conjunct2, THEN conjunct2, THEN conjunct2,
      THEN conjunct2, THEN conjunct2, rule_format]
  note ls = rest [THEN conjunct1, rule_format]
  note panel = rest [THEN conjunct2, THEN conjunct2, THEN conjunct1]
  from years have 0: "years_from 2020 2030 = Some (map real_of_int [2020..2030])"
    by simp
  have 1: "lineSeries readDigits (Some example_company) =
       Some [make_series (map real_of_int [2020..2030]) ''Scope 1''
               (Some (Fin 100)) (Some (Fin (8162774324609025 / 140737488355328))),
             make_series (map real_of_int [2020..2030]) ''Scope 2''
               (Some (Fin 50)) (Some (Fin (8162774324609025 / 281474976710656))),
             make_series (map real_of_int [2020..2030]) ''Scope 1+2''
               (Some (Fin 150)) (Some (Fin (6122080743456769 / 70368744177664)))]"
    using ls [OF y] unfolding example_derivation by simp
  from len have 2: "length ?pts = 11"
    by simp
  have 3: "snd (hd ?pts) = Fin 100"
    by (rule first [of 100 "?t - 100"]) (use db s in blast)
  have 4: "snd (last ?pts) = Fin ?t"
    by (rule exact [of 100 ?t]) (use dt dd in blast)
  have "(3::nat) \<le> 10 \<and> 10 < length ?pts" unfolding 2 by simp
  with s have "Fin 100 = Fin 100 \<and> Fin ?t = Fin ?t \<and> sub (Fin ?t) (Fin 100) = Fin (?t - 100)
                 \<and> (3::nat) \<le> 10 \<and> 10 < length ?pts"
    by blast
  from mono [OF this, THEN conjunct2] have 5: "le_num (snd (?pts ! 10)) (snd (?pts ! 3))"
    by simp
  have "map_option length
        (buildLinearSeries (Some (real_of_int 2020)) (Some (real_of_int 2030))
           (derive readDigits example_company)) = Some 11"
    unfolding panel by simp
  then have 6: "map_option length
        (buildLinearSeries (Some 2020) (Some 2030) (derive readDigits example_company)) = Some 11"
    by simp
  show ?thesis using h db dt dd 0 1 2 3 4 5 6 by blast
qed

text \<open>
  The claim as stated fails in two ways. With the start year 2020 and the target year 2022.5
  the series has the three points of 2020, 2021 and 2022, not \<open>2022.5 - 2020 + 1 = 3.5\<close>, and
  the value of 2021 is 75, halfway, where the formula of the claim gives
  \<open>100 + (50 - 100) * (2021 - 2020) / (2022.5 - 2020) = 80\<close>. And from 0.5 in 2020 to 0.1 in 2021
  the last value is \<open>0.5 + (0.1 - 0.5) = 0.09999999999999998\<close>, below the target 0.1.
\<close>

theorem trajectory_series_counterexample:
  "lineSeries readDigits (Some half_year_company) =
     Some [\<lparr>name = ''Scope 1'', points = [(2020, Fin 100), (2021, Fin 75), (2022, Fin 50)]\<rparr>,
           \<lparr>name = ''Scope 2'', points = []\<rparr>,
           \<lparr>name = ''Scope 1+2'', points = []\<rparr>]
   \<and> (4045 / 2 - 2020 + 1 :: real) = 7 / 2
   \<and> (100 + (50 - 100) * (2021 - 2020) / (4045 / 2 - 2020) :: real) = 80
   \<and> lineSeries readDigits (Some rounded_company) =
       Some [\<lparr>name = ''Scope 1'',
               points = [(2020, Fin (1 / 2)), (2021, Fin (900719925474099 / 9007199254740992))]\<rparr>,
             \<lparr>name = ''Scope 2'', points = []\<rparr>,
             \<lparr>name = ''Scope 1+2'', points = []\<rparr>]
   \<and> sbti_scope_1_target rounded_company = JNum (3602879701896397 / 36028797018963968)
   \<and> (900719925474099 / 9007199254740992 :: real) < 3602879701896397 / 36028797018963968"
proof -
  have y1: "years_from 2020 (4045 / 2) = Some [2020, 2021, 2022]"
    by (simp add: years_from.simps double_eval)
  have y2: "years_from 2020 2021 = Some [2020, 2021]"
    by (simp add: years_from.simps double_eval)
  have r: "rnd (1 / 10) = 3602879701896397 / 36028797018963968"
    by (simp add: double_eval)
  have a: "lineSeries readDigits (Some half_year_company) =
     Some [\<lparr>name = ''Scope 1'', points = [(2020, Fin 100), (2021, Fin 75), (2022, Fin 50)]\<rparr>,
           \<lparr>name = ''Scope 2'', points = []\<rparr>,
           \<lparr>name = ''Scope 1+2'', points = []\<rparr>]"
    by (simp add: lineSeries_def half_year_company_def y1 derive_def derive_steps_def sf_def
        make_series_def double_eval)
  have b: "lineSeries readDigits (Some rounded_company) =
       Some [\<lparr>name = ''Scope 1'',
               points = [(2020, Fin (1 / 2)), (2021, Fin (900719925474099 / 9007199254740992))]\<rparr>,
             \<lparr>name = ''Scope 2'', points = []\<rparr>,
             \<lparr>name = ''Scope 1+2'', points = []\<rparr>]"
    unfolding rounded_company_def r
    by (simp add: lineSeries_def y2 derive_def derive_steps_def sf_def
        make_series_def double_eval)
  have c: "sbti_scope_1_target rounded_company = JNum (3602879701896397 / 36028797018963968)"
    by (simp add: rounded_company_def r)
  show ?thesis using a b c by simp
qed


section \<open>Theorems: first readable candidate\<close>

text \<open>
  Both loops pass over the candidates that are absent, recording them, and read the
  candidates in the order given, never skipping one.
\<close>

lemma gap_candidates_skip:
  "list_all (absent rd) pre \<Longrightarrow>
   gap_candidates rd (pre @ rest) tried reads = gap_candidates rd rest (tried @ pre) (reads @ pre)"
proof (induction pre arbitrary: tried reads)
  case Nil
  show ?case by simp
next
  case (Cons p pre)
  from Cons.prems have "absent rd p" and pre: "list_all (absent rd) pre" by simp_all
  then obtain b where "rd p = Inr (Failed 404 b)"
    by (auto simp: absent_def split: sum.splits ReadResult.splits)
  then show ?case using Cons.IH [OF pre] by simp
qed

lemma benchmark_candidates_skip:
  "list_all (absent rd) pre \<Longrightarrow>
   benchmark_candidates rd (pre @ rest) tried reads
     = benchmark_candidates rd rest (tried @ map (\<lambda>p. (p, 404)) pre) (reads @ pre)"
proof (induction pre arbitrary: tried reads)
  case Nil
  show ?case by simp
next
  case (Cons p pre)
  from Cons.prems have "absent rd p" and pre: "list_all (absent rd) pre" by simp_all
  then obtain b where "rd p = Inr (Failed 404 b)"
    by (auto simp: absent_def split: sum.splits ReadResult.splits)
  then show ?case using Cons.IH [OF pre] by simp
qed

lemma gap_candidates_404:
  "http_status (fst (gap_candidates rd cands tried reads)) = 404 \<longleftrightarrow> list_all (absent rd) cands"
proof (induction cands arbitrary: tried reads)
  case Nil
  show ?case by simp
next
  case (Cons p cands)
  show ?case
  proof (cases "rd p")
    case (Inl e)
    then show ?thesis by (cases e) (simp add: absent_def)
  next
    case (Inr res)
    then show ?thesis using Cons.IH by (cases res) (simp_all add: absent_def)
  qed
qed

lemma benchmark_candidates_404:
  assumes "\<forall>p b. rd p \<noteq> Inr (Failed 0 b)"
  shows "http_status (fst (benchmark_candidates rd cands tried reads)) = 404
           \<longleftrightarrow> list_all (absent rd) cands"
proof (induction cands arbitrary: tried reads)
  case Nil
  show ?case by simp
next
  case (Cons p cands)
  show ?case
  proof (cases "rd p")
    case (Inl e)
    then show ?thesis by (cases e) (simp add: absent_def)
  next
    case (Inr res)
    then show ?thesis using Cons.IH assms by (cases res) (auto simp: absent_def)
  qed
qed

lemma gap_candidates_reads:
  "\<exists>n. snd (gap_candidates rd cands tried reads) = reads @ take n cands"
proof (induction cands arbitrary: tried reads)
  case Nil
  show ?case by simp
next
  case (Cons p cands)
  have one: "reads @ [p] = reads @ take 1 (p # cands)" by simp
  from Cons.IH [of "tried @ [p]" "reads @ [p]"] obtain n
    where "snd (gap_candidates rd cands (tried @ [p]) (reads @ [p])) = (reads @ [p]) @ take n cands" ..
  then have more: "snd (gap_candidates rd cands (tried @ [p]) (reads @ [p]))
                     = reads @ take (Suc n) (p # cands)" by simp
  show ?case
  proof (cases "rd p")
    case (Inl e)
    then show ?thesis using one by (cases e) (auto simp del: take_Suc_Cons)
  next
    case (Inr res)
    then show ?thesis using one more
      by (cases res) (auto simp del: take_Suc_Cons append_assoc)
  qed
qed

lemma benchmark_candidates_reads:
  "\<exists>n. snd (benchmark_candidates rd cands tried reads) = reads @ take n cands"
proof (induction cands arbitrary: tried reads)
  case Nil
  show ?case by simp
next
  case (Cons p cands)
  have one: "reads @ [p] = reads @ take 1 (p # cands)" by simp
  have more: "\<exists>n. snd (benchmark_candidates rd cands (tried @ [(p, st)]) (reads @ [p]))
                     = reads @ take n (p # cands)" for st
  proof -
    from Cons.IH [of "tried @ [(p, st)]" "reads @ [p]"] obtain n
      where "snd (benchmark_candidates rd cands (tried @ [(p, st)]) (reads @ [p]))
               = (reads @ [p]) @ take n cands" ..
    then have "snd (benchmark_candidates rd cands (tried @ [(p, st)]) (reads @ [p]))
                     = reads @ take (Suc n) (p # cands)" by simp
    then show ?thesis ..
  qed
  show ?case
  proof (cases "rd p")
    case (Inl e)
    then show ?thesis using one by (cases e) (auto simp del: take_Suc_Cons)
  next
    case (Inr res)
    then show ?thesis using one more
      by (cases res) (auto simp del: take_Suc_Cons append_assoc)
  qed
qed


lemma dbfsReadJson_status_nonzero:
  assumes "\<forall>p r. fetch p = Inr r \<longrightarrow> status r \<noteq> 0"
  shows "dbfsReadJson fetch decode parse p \<noteq> Inr (Failed 0 b)"
  using assms
  by (auto simp: dbfsReadJson_def Let_def split: sum.splits option.splits if_splits)

text \<open>
  Claim C3, for the loops of the benchmark route and of the gap route. When the candidates
  before \<open>p\<close> are all absent (status 404): if \<open>p\<close> reads and parses, the answer is its content
  and the reads are exactly the candidates up to \<open>p\<close>; if \<open>p\<close> fails with a status other than
  404, or the read throws, that error is the answer at once, again with no read after \<open>p\<close>.
  The answer has status 404 exactly when every candidate was absent, and then all were read.
  The reads are always an initial piece of the list. The benchmark route tests
  \<open>res.status && res.status !== 404\<close>, so a status of 0 would count as absent there; HTTP
  statuses are never 0, which is the hypothesis of the two statements that need it.
\<close>

theorem first_of_candidates:
  "(list_all (absent rd) pre \<longrightarrow>
      (rd p = Inr (Ok j) \<longrightarrow>
         gap_candidates rd (pre @ p # post) [] [] = (Reply 200 (Artifact j p), pre @ [p])
         \<and> benchmark_candidates rd (pre @ p # post) [] [] = (Reply 200 (Artifact j p), pre @ [p]))
      \<and> (rd p = Inr (Failed st b) \<and> st \<noteq> 404 \<longrightarrow>
         gap_candidates rd (pre @ p # post) [] [] = (Reply st (Read_failed st p), pre @ [p]))
      \<and> (rd p = Inr (Failed st b) \<and> st \<noteq> 404 \<and> st \<noteq> 0 \<longrightarrow>
         benchmark_candidates rd (pre @ p # post) [] [] = (Reply st (Read_failed st p), pre @ [p]))
      \<and> (rd p = Inl (Error m) \<longrightarrow>
         gap_candidates rd (pre @ p # post) [] [] = (Reply 500 (Server_error m), pre @ [p])
         \<and> benchmark_candidates rd (pre @ p # post) [] [] = (Reply 500 (Server_error m), pre @ [p])))
   \<and> (http_status (fst (gap_candidates rd cands [] [])) = 404 \<longleftrightarrow> list_all (absent rd) cands)
   \<and> ((\<forall>q c. rd q \<noteq> Inr (Failed 0 c)) \<longrightarrow>
        (http_status (fst (benchmark_candidates rd cands [] [])) = 404 \<longleftrightarrow> list_all (absent rd) cands))
   \<and> (list_all (absent rd) cands \<longrightarrow>
        gap_candidates rd cands [] [] = (Reply 404 (Not_found cands), cands)
        \<and> benchmark_candidates rd cands [] [] = (Reply 404 (Not_found cands), cands))
   \<and> (\<exists>n. snd (gap_candidates rd cands [] []) = take n cands)
   \<and> (\<exists>n. snd (benchmark_candidates rd cands [] []) = take n cands)"
proof -
  have g: "list_all (absent rd) pre \<Longrightarrow>
      gap_candidates rd (pre @ p # post) [] [] = gap_candidates rd (p # post) pre pre"
    using gap_candidates_skip [of rd pre "p # post" "[]" "[]"] by simp
  have b: "list_all (absent rd) pre \<Longrightarrow>
      benchmark_candidates rd (pre @ p # post) [] []
        = benchmark_candidates rd (p # post) (map (\<lambda>p. (p, 404)) pre) pre"
    using benchmark_candidates_skip [of rd pre "p # post" "[]" "[]"] by simp
  have 1: "list_all (absent rd) pre \<longrightarrow>
      (rd p = Inr (Ok j) \<longrightarrow>
         gap_candidates rd (pre @ p # post) [] [] = (Reply 200 (Artifact j p), pre @ [p])
         \<and> benchmark_candidates rd (pre @ p # post) [] [] = (Reply 200 (Artifact j p), pre @ [p]))
      \<and> (rd p = Inr (Failed st b) \<and> st \<noteq> 404 \<longrightarrow>
         gap_candidates rd (pre @ p # post) [] [] = (Reply st (Read_failed st p), pre @ [p]))
      \<and> (rd p = Inr (Failed st b) \<and> st \<noteq> 404 \<and> st \<noteq> 0 \<longrightarrow>
         benchmark_candidates rd (pre @ p # post) [] [] = (Reply st (Read_failed st p), pre @ [p]))
      \<and> (rd p = Inl (Error m) \<longrightarrow>
         gap_candidates rd (pre @ p # post) [] [] = (Reply 500 (Server_error m), pre @ [p])
         \<and> benchmark_candidates rd (pre @ p # post) [] [] = (Reply 500 (Server_error m), pre @ [p]))"
    using g b by simp
  have 2: "http_status (fst (gap_candidates rd cands [] [])) = 404 \<longleftrightarrow> list_all (absent rd) cands"
    by (rule gap_candidates_404)
  have 3: "(\<forall>q c. rd q \<noteq> Inr (Failed 0 c)) \<longrightarrow>
        (http_status (fst (benchmark_candidates rd cands [] [])) = 404 \<longleftrightarrow> list_all (absent rd) cands)"
    using benchmark_candidates_404 by blast
  have 4: "list_all (absent rd) cands \<longrightarrow>
        gap_candidates rd cands [] [] = (Reply 404 (Not_found cands), cands)
        \<and> benchmark_candidates rd cands [] [] = (Reply 404 (Not_found cands), cands)"
    using gap_candidates_skip [of rd cands "[]" "[]" "[]"]
      benchmark_candidates_skip [of rd cands "[]" "[]" "[]"]
    by (simp add: comp_def)
  have 5: "\<exists>n. snd (gap_candidates rd cands [] []) = take n cands"
    using gap_candidates_reads [of rd cands "[]" "[]"] by simp
  have 6: "\<exists>n. snd (benchmark_candidates rd cands [] []) = take n cands"
    using benchmark_candidates_reads [of rd cands "[]" "[]"] by simp
  show ?thesis
    using 1 2 3 4 5 6 by (intro conjI) (assumption+)
qed

lemma example_reads:
  "dbfsRead example_store example_decode example_parse ''A'' = Inr (Failed 404 ''RESOURCE_DOES_NOT_EXIST'')"
  "dbfsRead example_store example_decode example_parse ''B'' = Inr (Ok ''{}'')"
  "dbfsReadJson example_store example_decode example_parse ''A'' = Inr (Failed 404 ''RESOURCE_DOES_NOT_EXIST'')"
  "dbfsReadJson example_store example_decode example_parse ''B'' = Inr (Ok ''{}'')"
  by (simp_all add: dbfsRead_def dbfsReadJson_def example_store_def example_decode_def
      example_parse_def ok_def)

theorem first_of_candidates_witness:
  "list_all (absent (dbfsRead example_store example_decode example_parse)) [''A'']
   \<and> gap_candidates (dbfsRead example_store example_decode example_parse) [''A'', ''B'', ''C''] [] []
       = (Reply 200 (Artifact ''{}'' ''B''), [''A'', ''B''])
   \<and> list_all (absent (dbfsReadJson example_store example_decode example_parse)) [''A'']
   \<and> benchmark_candidates (dbfsReadJson example_store example_decode example_parse)
        [''A'', ''B'', ''C''] [] []
       = (Reply 200 (Artifact ''{}'' ''B''), [''A'', ''B''])"
proof -
  have a: "list_all (absent (dbfsRead example_store example_decode example_parse)) [''A'']"
    "list_all (absent (dbfsReadJson example_store example_decode example_parse)) [''A'']"
    by (simp_all add: absent_def example_reads)
  from first_of_candidates [of "dbfsRead example_store example_decode example_parse"
      "[''A'']" "''B''" "''{}''" "[''C'']"] a(1) example_reads(2)
  have g: "gap_candidates (dbfsRead example_store example_decode example_parse) [''A'', ''B'', ''C''] [] []
       = (Reply 200 (Artifact ''{}'' ''B''), [''A'', ''B''])"
    by simp
  from first_of_candidates [of "dbfsReadJson example_store example_decode example_parse"
      "[''A'']" "''B''" "''{}''" "[''C'']"] a(2) example_reads(4)
  have b: "benchmark_candidates (dbfsReadJson example_store example_decode example_parse)
        [''A'', ''B'', ''C''] [] []
       = (Reply 200 (Artifact ''{}'' ''B''), [''A'', ''B''])"
    by simp
  show ?thesis using a g b by blast
qed


section \<open>Theorems: polling and stale results\<close>

text \<open>
  When a dependency of the effect changes, every earlier run of the effect is cancelled and
  has no timer pending.
\<close>

lemma effects_run_effect:
  "\<exists>new. effects (run_effect s) = effects s @ new"
  by (auto simp: run_effect_def Let_def tick_start_def split: option.splits prod.splits)

lemma pending_cycle_cancelled:
  assumes "deps (page (step s ev)) \<noteq> deps (page s)" "i < length (effects s)"
  shows "cancelled (effects (step s ev) ! i) \<and> \<not> timer (effects (step s ev) ! i)"
proof -
  have r: "cancelled (effects (render old s') ! i) \<and> \<not> timer (effects (render old s') ! i)"
    if "deps (page s') \<noteq> deps old" "i < length (effects s')" for old and s' :: "'a poller"
  proof -
    obtain new where "effects (run_effect (s'\<lparr>effects := map cleanup (effects s')\<rparr>))
        = map cleanup (effects s') @ new"
      using effects_run_effect [of "s'\<lparr>effects := map cleanup (effects s')\<rparr>"] by auto
    then show ?thesis using that by (simp add: render_def nth_append cleanup_def)
  qed
  have same: "deps (page (render old s')) = deps (page s')" for old and s' :: "'a poller"
    by (auto simp: render_def run_effect_def Let_def tick_start_def doFetchAll_start_def deps_def
        split: option.splits prod.splits)
  show ?thesis
  proof (cases ev)
    case Reset_state
    with assms show ?thesis by (simp add: step_def same r)
  next
    case (Invoked pid batch)
    with assms show ?thesis by (simp add: step_def same r)
  next
    case (Arrive n j)
    with assms show ?thesis by (simp add: step_def same r split: if_splits)
  next
    case (Timeout n)
    with assms show ?thesis
      by (auto simp: step_def Let_def tick_start_def doFetchAll_start_def deps_def
          split: if_splits prod.splits)
  qed
qed

text \<open>
  Claim C4. \<open>doFetchAll\<close> does not look at \<open>cancelled\<close>: it applies the response before \<open>tick\<close>
  tests the flag. The document \<open>A\<close> is submitted and its fetch starts; the state is reset
  (the document id is cleared), which cancels the run of the effect; then the response for
  \<open>A\<close> arrives, all ready. The page now has no document id, the artifacts of \<open>A\<close>, and
  \<open>allReady\<close> set. If a document \<open>B\<close> was submitted in between, the page shows the
  artifacts of \<open>A\<close> as ready under the id of \<open>B\<close>.
\<close>

theorem stale_fetch_applied:
  "run [Invoked ''A'' ''batchA'', Reset_state,
        Arrive 0 (Readiness True (Some ''summaryA'') (Some ''benchA'') (Some ''gapA''))]
     = \<lparr>page = \<lparr>pdfId = None, batchPath = None, allReady = True,
                summaryRow = Some ''summaryA'', bench = Some ''benchA'', gapData = Some ''gapA'',
                fetching = False\<rparr>,
        effects = [\<lparr>e_pdfId = ''A'', e_batchPath = Some ''batchA'', e_allReady = False,
                    cancelled = True, timer = False, awaiting = False\<rparr>]\<rparr>
   \<and> page (run [Invoked ''A'' ''batchA'', Reset_state, Invoked ''B'' ''batchB'',
                 Arrive 0 (Readiness True (Some ''summaryA'') (Some ''benchA'') (Some ''gapA''))])
     = \<lparr>pdfId = Some ''B'', batchPath = Some ''batchB'', allReady = True,
        summaryRow = Some ''summaryA'', bench = Some ''benchA'', gapData = Some ''gapA'',
        fetching = True\<rparr>"
  by (simp add: run_def initial_def step_def render_def deps_def run_effect_def tick_start_def
      tick_resume_def doFetchAll_start_def doFetchAll_resume_def resetState_def cleanup_def Let_def)


section \<open>Theorems: reduction-value normalization\<close>






section \<open>Theorems: peer median\<close>

text \<open>The median of \<open>buildPeerDisplay\<close> is the median of the specification.\<close>

lemma buildPeerDisplay_median_spec:
  "buildPeerDisplay_median nums = (if nums = [] then None else Some (median_spec nums))"
proof (cases "nums = []")
  case True
  then show ?thesis by (simp add: buildPeerDisplay_median_def)
next
  case False
  let ?n = "length nums"
  have pos: "0 < ?n" using False by simp
  have odd_half: "odd ?n \<Longrightarrow> (?n - 1) div 2 = ?n div 2"
    by (metis even_Suc_div_two odd_pos odd_Suc_minus_one odd_two_times_div_two_nat add_diff_cancel_left' plus_1_eq_Suc nonzero_mult_div_cancel_left zero_neq_numeral)
  have ne: "sort nums \<noteq> []"
    using False by (metis length_sort length_0_conv)
  show ?thesis
    using False ne odd_half
    by (auto simp: buildPeerDisplay_median_def median_spec_def Let_def odd_iff_mod_2_eq_one)
qed

text \<open>
  Claim C6. For the peers with reductions 10, 20, 30 and 40 the median is 25, and
  \<open>buildPeerDisplay\<close> computes 25; \<open>normPeers\<close> of the SBTi panel takes the element at index
  \<open>floor(n / 2)\<close> of the sorted values and computes 30. For the odd count 10, 20, 30 both
  compute 20.
\<close>

theorem normPeers_median_even_count:
  "normPeers_median (normPeers_pctNums readDigits [JNum 10, JNum 20, JNum 30, JNum 40]) = Some 30
   \<and> median_spec [10, 20, 30, 40] = 25
   \<and> buildPeerDisplay_median
        (buildPeerDisplay_nums readDigits [JNum 10, JNum 20, JNum 30, JNum 40]) = Some 25
   \<and> normPeers_median (normPeers_pctNums readDigits [JNum 10, JNum 20, JNum 30]) = Some 20
   \<and> buildPeerDisplay_median (buildPeerDisplay_nums readDigits [JNum 10, JNum 20, JNum 30]) = Some 20"
proof -
  have f: "toFixed1 10 = 10" "toFixed1 20 = 20" "toFixed1 30 = 30" "toFixed1 40 = 40"
    by (simp_all add: toFixed1_def)
  have p4: "normPeers_pctNums readDigits [JNum 10, JNum 20, JNum 30, JNum 40] = [10, 20, 30, 40]"
    by (simp add: normPeers_pctNums_def pctDisp_def List.map_filter_def f)
  have p3: "normPeers_pctNums readDigits [JNum 10, JNum 20, JNum 30] = [10, 20, 30]"
    by (simp add: normPeers_pctNums_def pctDisp_def List.map_filter_def f)
  have b4: "buildPeerDisplay_nums readDigits [JNum 10, JNum 20, JNum 30, JNum 40] = [10, 20, 30, 40]"
    by (simp add: buildPeerDisplay_nums_def pctNum_def List.map_filter_def)
  have b3: "buildPeerDisplay_nums readDigits [JNum 10, JNum 20, JNum 30] = [10, 20, 30]"
    by (simp add: buildPeerDisplay_nums_def pctNum_def List.map_filter_def)
  show ?thesis
    unfolding p4 p3 b4 b3
    by (simp add: normPeers_median_def buildPeerDisplay_median_def median_spec_def Let_def)
qed


section \<open>Theorems: ambition classification\<close>

lemma eps_value: "eps = 5764607523034235 / 576460752303423488"
  by (simp add: eps_def double_eval)

lemma ambition_tests:
  "ambition (Some c) pc pr =
     (if aboveMedian pc c \<and> aboveMedian pr c
        then ''more ambitious than the median companies in both country and region''
      else if belowMedian pc c \<and> belowMedian pr c
        then ''less ambitious than the median companies in both country and region''
      else if aboveMedian pc c \<and> belowMedian pr c
        then ''above the country median but below the regional median''
      else if aboveMedian pr c \<and> belowMedian pc c
        then ''above the regional median but below the country median''
      else ''roughly in line with peer medians'')"
  by (simp add: ambition_def Let_def)

lemma ambition_median_missing:
  "pc = None \<or> pr = None \<Longrightarrow> ambition (Some c) pc pr = ''roughly in line with peer medians''"
  by (auto simp: ambition_tests aboveMedian_def belowMedian_def)

lemma ambition_outcomes_distinct: "distinct ambition_outcomes"
  by (simp add: ambition_outcomes_def)

lemma ambition_in_outcomes: "ambition cf pc pr \<in> set ambition_outcomes"
proof (cases cf)
  case None
  then show ?thesis by (simp add: ambition_def ambition_outcomes_def)
next
  case (Some c)
  show ?thesis unfolding Some ambition_tests by (simp add: ambition_outcomes_def)
qed

lemma ambition_not_unclear:
  "ambition (Some c) pc pr \<noteq> ''unclear relative to peers (missing company target)''"
  unfolding ambition_tests by simp

text \<open>
  The two tests on a median of moderate size: the sum and the difference are at most
  \<open>2^-7\<close> away from the exact ones, and so the sum is the larger.
\<close>

lemma moderate_tests:
  assumes x: "\<bar>x\<bar> \<le> 2 ^ 46"
  shows "aboveMedian (Some (Fin x)) c = (rnd (x + eps) \<le> c)"
    and "belowMedian (Some (Fin x)) c = (c \<le> rnd (x - eps))"
    and "rnd (x - eps) < rnd (x + eps)"
proof -
  have e: "0 < eps" "eps < 1" "1 / 64 < 2 * eps" by (simp_all add: eps_value)
  have M: "(2::real) ^ 47 \<le> MAX_VALUE" by (simp add: MAX_VALUE_def)
  have p: "\<bar>x + eps\<bar> < 2 powi (46 + 1)" "\<bar>x - eps\<bar> < 2 powi (46 + 1)"
    using x e by simp_all
  have "\<bar>x + eps\<bar> \<le> MAX_VALUE" "\<bar>x - eps\<bar> \<le> MAX_VALUE" using p M by simp_all
  then have R: "Round (x + eps) = Fin (rnd (x + eps))" "Round (x - eps) = Fin (rnd (x - eps))"
    by (simp_all add: Round_Fin)
  show "aboveMedian (Some (Fin x)) c = (rnd (x + eps) \<le> c)"
    by (simp add: aboveMedian_def R)
  show "belowMedian (Some (Fin x)) c = (c \<le> rnd (x - eps))"
    using R(2) by (simp add: belowMedian_def sub_def)
  have "\<bar>rnd (x + eps) - (x + eps)\<bar> \<le> 2 powi (46 - 53)"
    using p(1) by (rule rnd_error) simp_all
  moreover have "\<bar>rnd (x - eps) - (x - eps)\<bar> \<le> 2 powi (46 - 53)"
    using p(2) by (rule rnd_error) simp_all
  moreover have "(2::real) powi (46 - 53) = 1 / 128" by simp
  ultimately show "rnd (x - eps) < rnd (x + eps)" using e by linarith
qed

text \<open>
  Claim C7, as the code has it. The tolerance \<open>eps\<close> is the double \<open>0.01\<close>, and a median is
  above when the company value is at least the double sum \<open>median + eps\<close>, below when it is at
  most the double difference \<open>median - eps\<close>; a missing median is neither. A missing company
  value is ``unclear''. Otherwise the outcome is ``more ambitious than both'' exactly when
  both medians are above, and the next outcomes are tried in the order of the code: ``less
  ambitious than both'' when both are below, then the two mixed outcomes, then ``roughly in
  line''; so when a median is missing the outcome is ``roughly in line''. For medians of at
  most \<open>2^46\<close> in magnitude (those of the page lie between 0 and 1) the sum exceeds the
  difference, no median is both above and below, and each outcome has its own condition:
  ``less ambitious'' exactly when both are below, a mixed outcome exactly when one is above
  and the other below, ``roughly in line'' exactly when the company value lies strictly
  between the difference and the sum of one of the medians. Every outcome is one of six
  different texts.
\<close>

theorem ambition_classification:
  "ambition None pc pr = ''unclear relative to peers (missing company target)''
   \<and> eps = rnd (1 / 100)
   \<and> aboveMedian (Some m) c = le_num (add m (Fin eps)) (Fin c)
   \<and> belowMedian (Some m) c = le_num (Fin c) (sub m (Fin eps))
   \<and> \<not> aboveMedian None c \<and> \<not> belowMedian None c
   \<and> (ambition (Some c) pc pr
          = ''more ambitious than the median companies in both country and region''
        \<longleftrightarrow> aboveMedian pc c \<and> aboveMedian pr c)
   \<and> (ambition (Some c) pc pr
          = ''less ambitious than the median companies in both country and region''
        \<longleftrightarrow> \<not> (aboveMedian pc c \<and> aboveMedian pr c) \<and> belowMedian pc c \<and> belowMedian pr c)
   \<and> (ambition (Some c) pc pr
          = ''above the country median but below the regional median''
        \<longleftrightarrow> \<not> (aboveMedian pc c \<and> aboveMedian pr c) \<and> \<not> (belowMedian pc c \<and> belowMedian pr c)
            \<and> aboveMedian pc c \<and> belowMedian pr c)
   \<and> (ambition (Some c) pc pr
          = ''above the regional median but below the country median''
        \<longleftrightarrow> \<not> (aboveMedian pc c \<and> aboveMedian pr c) \<and> \<not> (belowMedian pc c \<and> belowMedian pr c)
            \<and> \<not> (aboveMedian pc c \<and> belowMedian pr c) \<and> aboveMedian pr c \<and> belowMedian pc c)
   \<and> (ambition (Some c) pc pr = ''roughly in line with peer medians''
        \<longleftrightarrow> \<not> (aboveMedian pc c \<and> aboveMedian pr c) \<and> \<not> (belowMedian pc c \<and> belowMedian pr c)
            \<and> \<not> (aboveMedian pc c \<and> belowMedian pr c) \<and> \<not> (aboveMedian pr c \<and> belowMedian pc c))
   \<and> (pc = None \<or> pr = None \<longrightarrow> ambition (Some c) pc pr = ''roughly in line with peer medians'')
   \<and> (\<bar>x\<bar> \<le> 2 ^ 46 \<and> \<bar>y\<bar> \<le> 2 ^ 46 \<longrightarrow>
        rnd (x - eps) < rnd (x + eps) \<and> rnd (y - eps) < rnd (y + eps)
        \<and> (ambition (Some c) (Some (Fin x)) (Some (Fin y))
              = ''more ambitious than the median companies in both country and region''
            \<longleftrightarrow> rnd (x + eps) \<le> c \<and> rnd (y + eps) \<le> c)
        \<and> (ambition (Some c) (Some (Fin x)) (Some (Fin y))
              = ''less ambitious than the median companies in both country and region''
            \<longleftrightarrow> c \<le> rnd (x - eps) \<and> c \<le> rnd (y - eps))
        \<and> (ambition (Some c) (Some (Fin x)) (Some (Fin y))
              = ''above the country median but below the regional median''
            \<longleftrightarrow> rnd (x + eps) \<le> c \<and> c \<le> rnd (y - eps))
        \<and> (ambition (Some c) (Some (Fin x)) (Some (Fin y))
              = ''above the regional median but below the country median''
            \<longleftrightarrow> rnd (y + eps) \<le> c \<and> c \<le> rnd (x - eps))
        \<and> (ambition (Some c) (Some (Fin x)) (Some (Fin y)) = ''roughly in line with peer medians''
            \<longleftrightarrow> (rnd (x - eps) < c \<and> c < rnd (x + eps))
                \<or> (rnd (y - eps) < c \<and> c < rnd (y + eps))))
   \<and> ambition (Some c) pc pr \<noteq> ''unclear relative to peers (missing company target)''
   \<and> ambition cf pc pr \<in> set ambition_outcomes \<and> distinct ambition_outcomes
   \<and> length ambition_outcomes = 6"
proof -
  define aC aR bC bR where "aC \<longleftrightarrow> aboveMedian pc c" and "aR \<longleftrightarrow> aboveMedian pr c"
    and "bC \<longleftrightarrow> belowMedian pc c" and "bR \<longleftrightarrow> belowMedian pr c"
  have amb: "ambition (Some c) pc pr =
     (if aC \<and> aR then ''more ambitious than the median companies in both country and region''
      else if bC \<and> bR then ''less ambitious than the median companies in both country and region''
      else if aC \<and> bR then ''above the country median but below the regional median''
      else if aR \<and> bC then ''above the regional median but below the country median''
      else ''roughly in line with peer medians'')"
    unfolding aC_def aR_def bC_def bR_def by (rule ambition_tests)
  have 1: "ambition (Some c) pc pr
          = ''more ambitious than the median companies in both country and region''
        \<longleftrightarrow> aC \<and> aR"
    unfolding amb by simp
  have 2: "ambition (Some c) pc pr
          = ''less ambitious than the median companies in both country and region''
        \<longleftrightarrow> \<not> (aC \<and> aR) \<and> bC \<and> bR"
    unfolding amb by simp
  have 3: "ambition (Some c) pc pr
          = ''above the country median but below the regional median''
        \<longleftrightarrow> \<not> (aC \<and> aR) \<and> \<not> (bC \<and> bR) \<and> aC \<and> bR"
    unfolding amb by simp
  have 4: "ambition (Some c) pc pr
          = ''above the regional median but below the country median''
        \<longleftrightarrow> \<not> (aC \<and> aR) \<and> \<not> (bC \<and> bR) \<and> \<not> (aC \<and> bR) \<and> aR \<and> bC"
    unfolding amb by simp
  have 5: "ambition (Some c) pc pr = ''roughly in line with peer medians''
        \<longleftrightarrow> \<not> (aC \<and> aR) \<and> \<not> (bC \<and> bR) \<and> \<not> (aC \<and> bR) \<and> \<not> (aR \<and> bC)"
    unfolding amb by simp
  have 0: "ambition None pc pr = ''unclear relative to peers (missing company target)''"
    by (simp add: ambition_def)
  have 6: "aboveMedian (Some m) c = le_num (add m (Fin eps)) (Fin c)"
    "belowMedian (Some m) c = le_num (Fin c) (sub m (Fin eps))" "\<not> aboveMedian None c" "\<not> belowMedian None c"
    by (simp_all add: aboveMedian_def belowMedian_def)
  have 7: "length ambition_outcomes = 6" by (simp add: ambition_outcomes_def)
  have 8: "eps = rnd (1 / 100)" by (simp add: eps_def)
  have 9: "rnd (x - eps) < rnd (x + eps) \<and> rnd (y - eps) < rnd (y + eps)
        \<and> (ambition (Some c) (Some (Fin x)) (Some (Fin y))
              = ''more ambitious than the median companies in both country and region''
            \<longleftrightarrow> rnd (x + eps) \<le> c \<and> rnd (y + eps) \<le> c)
        \<and> (ambition (Some c) (Some (Fin x)) (Some (Fin y))
              = ''less ambitious than the median companies in both country and region''
            \<longleftrightarrow> c \<le> rnd (x - eps) \<and> c \<le> rnd (y - eps))
        \<and> (ambition (Some c) (Some (Fin x)) (Some (Fin y))
              = ''above the country median but below the regional median''
            \<longleftrightarrow> rnd (x + eps) \<le> c \<and> c \<le> rnd (y - eps))
        \<and> (ambition (Some c) (Some (Fin x)) (Some (Fin y))
              = ''above the regional median but below the country median''
            \<longleftrightarrow> rnd (y + eps) \<le> c \<and> c \<le> rnd (x - eps))
        \<and> (ambition (Some c) (Some (Fin x)) (Some (Fin y)) = ''roughly in line with peer medians''
            \<longleftrightarrow> (rnd (x - eps) < c \<and> c < rnd (x + eps))
                \<or> (rnd (y - eps) < c \<and> c < rnd (y + eps)))"
    if xy: "\<bar>x\<bar> \<le> 2 ^ 46 \<and> \<bar>y\<bar> \<le> 2 ^ 46"
  proof -
    define p q r s where "p \<longleftrightarrow> rnd (x + eps) \<le> c" and "q \<longleftrightarrow> rnd (y + eps) \<le> c"
      and "r \<longleftrightarrow> c \<le> rnd (x - eps)" and "s \<longleftrightarrow> c \<le> rnd (y - eps)"
    from xy have X: "\<bar>x\<bar> \<le> 2 ^ 46" and Y: "\<bar>y\<bar> \<le> 2 ^ 46" by simp_all
    note mx = moderate_tests(1,2) [OF X, of c] and my = moderate_tests(1,2) [OF Y, of c]
    note lx = moderate_tests(3) [OF X] and ly = moderate_tests(3) [OF Y]
    have excl: "\<not> (p \<and> r)" "\<not> (q \<and> s)"
      using lx ly by (auto simp: p_def q_def r_def s_def)
    have mid: "(rnd (x - eps) < c \<and> c < rnd (x + eps)) \<longleftrightarrow> \<not> p \<and> \<not> r"
      "(rnd (y - eps) < c \<and> c < rnd (y + eps)) \<longleftrightarrow> \<not> q \<and> \<not> s"
      by (auto simp: p_def q_def r_def s_def)
    have a: "ambition (Some c) (Some (Fin x)) (Some (Fin y)) =
       (if p \<and> q then ''more ambitious than the median companies in both country and region''
        else if r \<and> s then ''less ambitious than the median companies in both country and region''
        else if p \<and> s then ''above the country median but below the regional median''
        else if q \<and> r then ''above the regional median but below the country median''
        else ''roughly in line with peer medians'')"
      unfolding ambition_tests mx my p_def q_def r_def s_def by (rule refl)
    have b1: "ambition (Some c) (Some (Fin x)) (Some (Fin y))
              = ''more ambitious than the median companies in both country and region''
            \<longleftrightarrow> p \<and> q"
      unfolding a by simp
    have b2: "ambition (Some c) (Some (Fin x)) (Some (Fin y))
              = ''less ambitious than the median companies in both country and region''
            \<longleftrightarrow> r \<and> s"
      unfolding a using excl by auto
    have b3: "ambition (Some c) (Some (Fin x)) (Some (Fin y))
              = ''above the country median but below the regional median''
            \<longleftrightarrow> p \<and> s"
      unfolding a using excl by auto
    have b4: "ambition (Some c) (Some (Fin x)) (Some (Fin y))
              = ''above the regional median but below the country median''
            \<longleftrightarrow> q \<and> r"
      unfolding a using excl by auto
    have b5: "ambition (Some c) (Some (Fin x)) (Some (Fin y)) = ''roughly in line with peer medians''
            \<longleftrightarrow> (\<not> p \<and> \<not> r) \<or> (\<not> q \<and> \<not> s)"
      unfolding a using excl by auto
    show ?thesis
      unfolding mid using lx ly b1 b2 b3 b4 b5 unfolding p_def q_def r_def s_def by blast
  qed
  show ?thesis
    using 0 1 2 3 4 5 6 7 8 9 ambition_median_missing [of pc pr c] ambition_not_unclear [of c pc pr]
      ambition_in_outcomes [of cf pc pr] ambition_outcomes_distinct
    unfolding aC_def aR_def bC_def bR_def
    by blast
qed

text \<open>
  With both medians at \<open>0.2\<close>: the sum \<open>0.2 + 0.01\<close> is \<open>0.21000000000000002\<close>, so the company
  value \<open>0.21\<close> is roughly in line and \<open>0.22\<close> is more ambitious than both.
\<close>

theorem ambition_classification_witness:
  "\<bar>rnd (2 / 10)\<bar> \<le> 2 ^ 46
   \<and> rnd (rnd (2 / 10) + eps) = 3783023686991217 / 18014398509481984
   \<and> rnd (21 / 100) < rnd (rnd (2 / 10) + eps)
   \<and> ambition (Some (rnd (21 / 100))) (Some (Fin (rnd (2 / 10)))) (Some (Fin (rnd (2 / 10))))
       = ''roughly in line with peer medians''
   \<and> ambition (Some (rnd (22 / 100))) (Some (Fin (rnd (2 / 10)))) (Some (Fin (rnd (2 / 10))))
       = ''more ambitious than the median companies in both country and region''
   \<and> ambition (Some (1 / 2)) None (Some (Fin (1 / 4))) = ''roughly in line with peer medians''"
proof -
  have m: "rnd (2 / 10) = 3602879701896397 / 18014398509481984" by (simp add: double_eval)
  have c1: "rnd (21 / 100) = 7566047373982433 / 36028797018963968" by (simp add: double_eval)
  have c2: "rnd (22 / 100) = 7926335344172073 / 36028797018963968" by (simp add: double_eval)
  have s: "rnd (3602879701896397 / 18014398509481984 + eps) = 3783023686991217 / 18014398509481984"
    unfolding eps_value by (simp add: double_eval)
  have d: "rnd (3602879701896397 / 18014398509481984 - eps) = 3422735716801577 / 18014398509481984"
    unfolding eps_value by (simp add: double_eval)
  have 0: "\<bar>rnd (2 / 10)\<bar> \<le> 2 ^ 46" unfolding m by simp
  note t1 = ambition_classification [where x = "rnd (2 / 10)" and y = "rnd (2 / 10)"
      and c = "rnd (21 / 100)"]
  from t1 have 1: "ambition (Some (rnd (21 / 100))) (Some (Fin (rnd (2 / 10)))) (Some (Fin (rnd (2 / 10))))
       = ''roughly in line with peer medians''"
    unfolding m c1 s d by simp
  note t2 = ambition_classification [where x = "rnd (2 / 10)" and y = "rnd (2 / 10)"
      and c = "rnd (22 / 100)"]
  from t2 have 2: "ambition (Some (rnd (22 / 100))) (Some (Fin (rnd (2 / 10)))) (Some (Fin (rnd (2 / 10))))
       = ''more ambitious than the median companies in both country and region''"
    unfolding m c2 s d by simp
  note t3 = ambition_classification [where pc = None and pr = "Some (Fin (1 / 4))" and c = "1 / 2"]
  from t3 have 3: "ambition (Some (1 / 2)) None (Some (Fin (1 / 4))) = ''roughly in line with peer medians''"
    by simp
  have 4: "rnd (rnd (2 / 10) + eps) = 3783023686991217 / 18014398509481984"
    "rnd (21 / 100) < rnd (rnd (2 / 10) + eps)"
    unfolding m c1 s by simp_all
  show ?thesis using 0 1 2 3 4 by blast
qed

text \<open>
  The claim as stated fails when one median is missing: the company value 0.5 is at least
  each available median plus the tolerance (only the country median 0.25 is available), in
  exact as in double arithmetic, and the outcome is ``roughly in line'', not ``more ambitious
  than both''.
\<close>

theorem ambition_one_median_counterexample:
  "at_least_each_available (1 / 2) (Some (1 / 4)) None
   \<and> aboveMedian (Some (Fin (1 / 4))) (1 / 2)
   \<and> ambition (Some (1 / 2)) (Some (Fin (1 / 4))) None = ''roughly in line with peer medians''"
proof -
  have a: "at_least_each_available (1 / 2) (Some (1 / 4)) None"
    by (simp add: at_least_each_available_def List.map_filter_def)
  have b: "aboveMedian (Some (Fin (1 / 4))) (1 / 2)"
    unfolding aboveMedian_def eps_value by (simp add: double_eval)
  have c: "ambition (Some (1 / 2)) (Some (Fin (1 / 4))) None = ''roughly in line with peer medians''"
    by (simp add: ambition_tests aboveMedian_def belowMedian_def)
  show ?thesis using a b c by blast
qed


section \<open>Theorems: gap severity aggregation\<close>

text \<open>
  The four counters of \<open>severityCounts\<close> count the findings of each defined severity, and the
  counters of \<open>griGroups\<close> count every finding once in its category.
\<close>

lemma count_of_bump:
  "count_of (bump k cs) k' = (if k = k' then count_of cs k + 1 else count_of cs k')"
  by (induction cs) (auto simp: count_of_def)

lemma keys_bump: "k \<in> set (map fst cs) \<Longrightarrow> map fst (bump k cs) = map fst cs"
  by (induction cs) force+

lemma keys_severityCounts_step: "map fst (severityCounts_step cs r) = map fst cs"
  by (simp add: severityCounts_step_def Let_def keys_bump)

lemma keys_foldl_severityCounts_step: "map fst (foldl severityCounts_step cs rs) = map fst cs"
  by (induction rs arbitrary: cs) (simp_all add: keys_severityCounts_step)

lemma four_keys: "set (map fst zero_counts) = {''0'', ''1'', ''2'', ''3''}"
  by (simp add: zero_counts_def)

lemma count_of_zero_counts: "count_of zero_counts k = 0"
  by (simp add: count_of_def zero_counts_def)

lemma count_of_severityCounts_step:
  "count_of (severityCounts_step cs r) k =
     count_of cs k
     + (if String_severity (severity r) = k \<and> k \<in> set (map fst cs) then 1 else 0)"
  unfolding severityCounts_step_def Let_def by (simp add: count_of_bump)

lemma count_of_foldl_severityCounts_step:
  "count_of (foldl severityCounts_step cs rs) k =
     count_of cs k
     + (if k \<in> set (map fst cs)
        then length (filter (\<lambda>r. String_severity (severity r) = k) rs) else 0)"
proof (induction rs arbitrary: cs)
  case Nil
  show ?case by simp
next
  case (Cons r rs)
  show ?case
    unfolding foldl_Cons Cons.IH keys_severityCounts_step count_of_severityCounts_step
    by simp
qed

lemma count_of_severityCounts:
  "k \<in> {''0'', ''1'', ''2'', ''3''} \<Longrightarrow>
   count_of (severityCounts fs) k =
     length (filter (\<lambda>r. String_severity (severity r) = k) fs)"
  unfolding severityCounts_def count_of_foldl_severityCounts_step four_keys
  by (simp add: count_of_zero_counts)

lemma length_filter_four:
  "length (filter (\<lambda>r. f r \<in> {''0'', ''1'', ''2'', ''3''}) rs) =
     length (filter (\<lambda>r. f r = ''0'') rs) + length (filter (\<lambda>r. f r = ''1'') rs)
     + length (filter (\<lambda>r. f r = ''2'') rs) + length (filter (\<lambda>r. f r = ''3'') rs)"
  by (induction rs) auto

lemma known_count_set:
  "known_count fs = length (filter (\<lambda>r. String_severity (severity r) \<in> {''0'', ''1'', ''2'', ''3''}) fs)"
  by (simp add: known_count_def)

lemma overall_sum_known: "overall_sum fs = known_count fs"
  unfolding overall_sum_def four_sum_def known_count_set length_filter_four
  by (simp add: count_of_severityCounts)

lemma four_sum_bump:
  "four_sum (bump k cs) = four_sum cs + (if k \<in> {''0'', ''1'', ''2'', ''3''} then 1 else 0)"
  unfolding four_sum_def count_of_bump by auto

lemma four_sum_zero_counts: "four_sum zero_counts = 0"
  by (simp add: four_sum_def count_of_zero_counts)

lemma groups_sum_bump_group:
  "groups_sum (bump_group cat sev gs) =
     groups_sum gs + (if sev \<in> {''0'', ''1'', ''2'', ''3''} then 1 else 0)"
  by (induction gs) (auto simp: groups_sum_def four_sum_bump four_sum_zero_counts)

lemma groups_sum_foldl:
  "groups_sum (foldl griGroups_step gs rs) =
     groups_sum gs
     + length (filter (\<lambda>r. key_severity (severity r) \<in> {''0'', ''1'', ''2'', ''3''}) rs)"
  by (induction rs arbitrary: gs) (simp_all add: griGroups_step_def groups_sum_bump_group)

lemma key_severity_known:
  "key_severity v \<in> {''0'', ''1'', ''2'', ''3''}
     \<longleftrightarrow> String_severity v \<in> {''0'', ''1'', ''2'', ''3''} \<or> v = Absent"
  by (cases v) (simp_all add: key_severity_def String_severity_def)

lemma String_severity_Absent: "String_severity Absent \<notin> {''0'', ''1'', ''2'', ''3''}"
  by (simp add: String_severity_def)

lemma length_filter_disj:
  "(\<And>x. \<not> (P x \<and> Q x)) \<Longrightarrow>
   length (filter (\<lambda>x. P x \<or> Q x) xs) = length (filter P xs) + length (filter Q xs)"
  by (induction xs) auto

lemma category_sum_split: "category_sum fs = overall_sum fs + absent_count fs"
proof -
  have "category_sum fs =
      length (filter (\<lambda>r. key_severity (severity r) \<in> {''0'', ''1'', ''2'', ''3''}) fs)"
    by (simp add: category_sum_def griGroups_def groups_sum_foldl [unfolded groups_sum_def, of "[]"])
  also have "\<dots> = length (filter (\<lambda>r. String_severity (severity r) \<in> {''0'', ''1'', ''2'', ''3''}
                                   \<or> severity r = Absent) fs)"
    by (simp only: key_severity_known)
  also have "\<dots> = length (filter (\<lambda>r. String_severity (severity r) \<in> {''0'', ''1'', ''2'', ''3''}) fs)
                  + length (filter (\<lambda>r. severity r = Absent) fs)"
  proof (rule length_filter_disj)
    fix x :: finding
    show "\<not> (String_severity (severity x) \<in> {''0'', ''1'', ''2'', ''3''} \<and> severity x = Absent)"
      using String_severity_Absent by metis
  qed
  also have "\<dots> = overall_sum fs + absent_count fs"
    unfolding overall_sum_known known_count_set absent_count_def by (rule refl)
  finally show ?thesis .
qed

lemma group_count_bump_group:
  "group_count (bump_group cat sev gs) cat sev = group_count gs cat sev + 1"
  by (induction gs) (auto simp: group_count_def count_of_bump count_of_zero_counts)

text \<open>
  Claim C8, as the code has it. Each of the four counters is the number of findings with that
  severity, and the share shown for a severity is that counter divided by the number of all
  findings, times 100: \<open>totalRecords\<close> is the length of the list, in which the findings of
  unknown severity are counted too.
\<close>

theorem severity_percentages:
  "(k \<in> set [''0'', ''1'', ''2'', ''3''] \<longrightarrow>
      count_of (severityCounts fs) k
        = length (filter (\<lambda>r. String_severity (severity r) = k) fs)
      \<and> (fs \<noteq> [] \<longrightarrow>
           overall_pct fs k
             = real (length (filter (\<lambda>r. String_severity (severity r) = k) fs))
               / real (length fs) * 100))
   \<and> totalRecords fs = length fs
   \<and> length fs
       = known_count fs
         + length (filter (\<lambda>r. String_severity (severity r) \<notin> set [''0'', ''1'', ''2'', ''3'']) fs)"
proof -
  have k: "k \<in> set [''0'', ''1'', ''2'', ''3''] \<Longrightarrow> k \<in> {''0'', ''1'', ''2'', ''3''}"
    by auto
  have 1: "k \<in> set [''0'', ''1'', ''2'', ''3''] \<Longrightarrow>
      count_of (severityCounts fs) k
        = length (filter (\<lambda>r. String_severity (severity r) = k) fs)"
    using k by (rule count_of_severityCounts)
  have 2: "k \<in> set [''0'', ''1'', ''2'', ''3''] \<Longrightarrow> fs \<noteq> [] \<Longrightarrow>
           overall_pct fs k
             = real (length (filter (\<lambda>r. String_severity (severity r) = k) fs))
               / real (length fs) * 100"
    using 1 by (simp add: overall_pct_def totalRecords_def)
  have 3: "length fs
       = known_count fs
         + length (filter (\<lambda>r. String_severity (severity r) \<notin> set [''0'', ''1'', ''2'', ''3'']) fs)"
    unfolding known_count_def by (rule sum_length_filter_compl [symmetric])
  show ?thesis using 1 2 3 by (simp add: totalRecords_def)
qed

theorem severity_percentages_witness:
  "''3'' \<in> set [''0'', ''1'', ''2'', ''3''] \<and> example_findings \<noteq> []
   \<and> count_of (severityCounts example_findings) ''3'' = 1
   \<and> overall_pct example_findings ''3'' = 50"
proof -
  have n: "''3'' \<in> set [''0'', ''1'', ''2'', ''3'']" "example_findings \<noteq> []"
    by (simp_all add: example_findings_def)
  have f: "length (filter (\<lambda>r. String_severity (severity r) = ''3'') example_findings) = 1"
    "length example_findings = 2"
    by (simp_all add: example_findings_def String_severity_def)
  from severity_percentages [of "''3''" example_findings] n f show ?thesis by simp
qed

text \<open>
  The claim as stated fails: of the two example findings one has severity 3 and one has no
  severity. The share shown for severity 3 is 50, and the claim's quotient, over the one
  finding of known severity, is 100.
\<close>

theorem severity_denominator_counterexample:
  "overall_pct example_findings ''3'' = 50
   \<and> real (count_of (severityCounts example_findings) ''3'')
       / real (known_count example_findings) * 100 = 100"
  by (simp add: overall_pct_def totalRecords_def known_count_def count_of_def severityCounts_def
      severityCounts_step_def String_severity_def zero_counts_def example_findings_def)


section \<open>Theorems: artifacts that do not parse\<close>

text \<open>
  \<open>fetchWithRetry\<close> hands back only responses that are ok or have status 404, so the paged
  read can fail with no other status.
\<close>

lemma fetchWithRetry_result:
  "fetchWithRetry attempt i retries = Inr r \<Longrightarrow>
     (ok r \<or> status r = 404) \<and> (\<exists>k. attempt k = Inr r)"
proof (induction attempt i retries rule: fetchWithRetry.induct)
  case (1 attempt i retries)
  show ?case
  proof (cases "i < retries")
    case False
    with "1.prems" show ?thesis by (subst (asm) fetchWithRetry.simps) simp
  next
    case True
    show ?thesis
    proof (cases "attempt i")
      case (Inl e)
      with True "1.prems" have "int i \<noteq> int retries - 1"
        by (subst (asm) fetchWithRetry.simps) (auto split: if_splits)
      moreover from this True Inl "1.prems" have "fetchWithRetry attempt (i + 1) retries = Inr r"
        by (subst (asm) fetchWithRetry.simps) simp
      ultimately show ?thesis using "1.IH"(1) [OF True Inl] by blast
    next
      case (Inr r')
      show ?thesis
      proof (cases "ok r' \<or> status r' = 404")
        case yes: True
        with True Inr "1.prems" have "r = r'"
          by (subst (asm) fetchWithRetry.simps) simp
        with yes Inr show ?thesis by blast
      next
        case no: False
        with True Inr "1.prems" have "fetchWithRetry attempt (i + 1) retries = Inr r"
          by (subst (asm) fetchWithRetry.simps) simp
        then show ?thesis using "1.IH"(2) [OF True Inr no] by blast
      qed
    qed
  qed
qed

lemma read_pages_Http_error_all:
  "read_pages chunk_at offset acc = Some res \<Longrightarrow>
     \<forall>st t. res = Http_error st t \<longrightarrow>
       st = 404 \<and> (\<exists>off k r. chunk_at off k = Inr r \<and> status r = 404 \<and> body_text r = t)"
proof (induction chunk_at offset acc res rule: read_pages.raw_induct [rotated -1, consumes 1])
  case (1 rp chunk_at offset base64All res)
  show ?case
  proof (cases "fetchWithRetry (chunk_at offset) 0 3")
    case (Inl e)
    with "1.hyps" show ?thesis by auto
  next
    case (Inr r)
    from fetchWithRetry_result [OF Inr]
    have okr: "ok r \<or> status r = 404" and src: "\<exists>k. chunk_at offset k = Inr r" by simp_all
    show ?thesis
    proof (cases "ok r")
      case False
      with okr have s: "status r = 404" by simp
      from False Inr "1.hyps" have "res = Http_error (status r) (body_text r)" by simp
      with s src show ?thesis by blast
    next
      case True
      show ?thesis
      proof (cases "json r")
        case None
        with True Inr "1.hyps" show ?thesis by auto
      next
        case (Some j)
        let ?d = "case data j of None \<Rightarrow> [] | Some d \<Rightarrow> d"
        let ?n = "case bytes_read j of None \<Rightarrow> 0 | Some n \<Rightarrow> n"
        show ?thesis
        proof (cases "?d = [] \<or> ?n = 0 \<or> ?n < CHUNK")
          case stop: True
          with True Inr Some "1.hyps" have "\<exists>b. res = Complete b"
            by (auto split: if_splits)
          then show ?thesis by auto
        next
          case go: False
          with True Inr Some "1.hyps"
          have "rp chunk_at (offset + ?n) (base64All @ ?d) = Some res"
            by (simp split: if_splits)
          from "1.IH" [OF this] show ?thesis .
        qed
      qed
    qed
  qed
qed

lemma read_pages_Http_error:
  "read_pages chunk_at offset acc = Some (Http_error st t) \<Longrightarrow>
     st = 404 \<and> (\<exists>off k r. chunk_at off k = Inr r \<and> status r = 404 \<and> body_text r = t)"
  using read_pages_Http_error_all by blast

lemma read_pages_first_404:
  assumes "chunk_at 0 0 = Inr r" "status r = 404"
  shows "read_pages chunk_at 0 [] = Some (Http_error 404 (body_text r))"
proof -
  have "fetchWithRetry (chunk_at 0) 0 3 = Inr r"
    using assms by (subst fetchWithRetry.simps) simp
  moreover have "\<not> ok r" using assms(2) by (simp add: ok_def)
  ultimately show ?thesis using assms(2) by (subst read_pages.simps) simp
qed

lemma dbfsReadJson_404:
  "dbfsReadJson fetch decode parse path = Inr (Failed 404 b)
     \<longleftrightarrow> (\<exists>r. fetch path = Inr r \<and> status r = 404 \<and> body_text r = b)"
  by (auto simp: dbfsReadJson_def Let_def ok_def split: sum.splits option.splits)

lemma dbfsRead_404:
  "dbfsRead fetch decode parse path = Inr (Failed 404 b)
     \<longleftrightarrow> (\<exists>r. fetch path = Inr r \<and> status r = 404 \<and> body_text r = b)"
  by (auto simp: dbfsRead_def Let_def ok_def split: sum.splits option.splits)

lemma dbfs_read_GET_404:
  assumes "dbfs_read_GET pfetch decode parse host token path_param = Some (Proxy_reply 404 e)"
  shows "\<exists>dbfsPath off k r. pfetch dbfsPath off k = Inr r \<and> status r = 404"
proof -
  let ?p = "dbfsPath_of (the path_param)"
  from assms obtain res where rp: "read_pages (pfetch ?p) 0 [] = Some res"
    by (auto simp: dbfs_read_GET_def Let_def split: if_splits option.splits)
  with assms obtain t where "res = Http_error 404 t"
    by (auto simp: dbfs_read_GET_def Let_def split: if_splits option.splits paged.splits exn.splits)
  with rp have "read_pages (pfetch ?p) 0 [] = Some (Http_error 404 t)" by simp
  from read_pages_Http_error [OF this] show ?thesis by blast
qed

text \<open>
  Claim C9, as the code has it. In the readers of the benchmark and gap routes an artifact
  that was read but does not parse gives an error of its own, with status 502
  (\<open>dbfsReadJson\<close>) or 500 (\<open>dbfsRead\<close>), and the error has status 404 exactly when the store
  answered 404. The \<open>dbfs-read\<close> route does not make an error of it: content that does not
  parse is answered with status 200 as text. Its answer has status 404 only if the store
  answered a chunk request with 404, and it has status 404 when the store answers the first
  request so.
\<close>

theorem malformed_artifact:
  "(fetch path = Inr r \<and> ok r \<and> json r = Some p
      \<and> parse (decode (case data p of None \<Rightarrow> [] | Some d \<Rightarrow> d)) = None \<longrightarrow>
      dbfsReadJson fetch decode parse path
        = Inr (Failed 502 (''Artifact is not valid JSON at '' @ path)))
   \<and> (dbfsReadJson fetch decode parse path = Inr (Failed 404 b)
        \<longleftrightarrow> (\<exists>r'. fetch path = Inr r' \<and> status r' = 404 \<and> body_text r' = b))
   \<and> (fetch path = Inr r \<and> ok r \<and> json r = Some p \<and> data p = Some d \<and> d \<noteq> []
      \<and> parse (decode d) = None \<longrightarrow>
      dbfsRead fetch decode parse path = Inr (Failed 500 ''Failed to parse JSON''))
   \<and> (dbfsRead fetch decode parse path = Inr (Failed 404 b)
        \<longleftrightarrow> (\<exists>r'. fetch path = Inr r' \<and> status r' = 404 \<and> body_text r' = b))
   \<and> (\<not> falsy host \<and> \<not> falsy token \<and> \<not> falsy path_param
      \<and> read_pages (pfetch (dbfsPath_of (the path_param))) 0 [] = Some (Complete b64)
      \<and> b64 \<noteq> [] \<and> parse (decode b64) = None \<longrightarrow>
      dbfs_read_GET pfetch decode parse host token path_param
        = Some (Proxy_reply 200 (Text_kind (decode b64) (dbfsPath_of (the path_param)))))
   \<and> (dbfs_read_GET pfetch decode parse host token path_param = Some (Proxy_reply 404 e) \<longrightarrow>
        (\<exists>dbfsPath off k r'. pfetch dbfsPath off k = Inr r' \<and> status r' = 404))
   \<and> (\<not> falsy host \<and> \<not> falsy token \<and> \<not> falsy path_param
      \<and> pfetch (dbfsPath_of (the path_param)) 0 0 = Inr r \<and> status r = 404 \<longrightarrow>
      (\<exists>e'. dbfs_read_GET pfetch decode parse host token path_param = Some (Proxy_reply 404 e')))"
proof -
  have 1: "fetch path = Inr r \<and> ok r \<and> json r = Some p
      \<and> parse (decode (case data p of None \<Rightarrow> [] | Some d \<Rightarrow> d)) = None \<longrightarrow>
      dbfsReadJson fetch decode parse path
        = Inr (Failed 502 (''Artifact is not valid JSON at '' @ path))"
    by (simp add: dbfsReadJson_def Let_def)
  have 3: "fetch path = Inr r \<and> ok r \<and> json r = Some p \<and> data p = Some d \<and> d \<noteq> []
      \<and> parse (decode d) = None \<longrightarrow>
      dbfsRead fetch decode parse path = Inr (Failed 500 ''Failed to parse JSON'')"
    by (simp add: dbfsRead_def)
  have 5: "\<not> falsy host \<and> \<not> falsy token \<and> \<not> falsy path_param
      \<and> read_pages (pfetch (dbfsPath_of (the path_param))) 0 [] = Some (Complete b64)
      \<and> b64 \<noteq> [] \<and> parse (decode b64) = None \<longrightarrow>
      dbfs_read_GET pfetch decode parse host token path_param
        = Some (Proxy_reply 200 (Text_kind (decode b64) (dbfsPath_of (the path_param))))"
    by (simp add: dbfs_read_GET_def Let_def)
  have 6: "dbfs_read_GET pfetch decode parse host token path_param = Some (Proxy_reply 404 e) \<longrightarrow>
        (\<exists>dbfsPath off k r'. pfetch dbfsPath off k = Inr r' \<and> status r' = 404)"
    using dbfs_read_GET_404 by blast
  have 7: "\<not> falsy host \<and> \<not> falsy token \<and> \<not> falsy path_param
      \<and> pfetch (dbfsPath_of (the path_param)) 0 0 = Inr r \<and> status r = 404 \<longrightarrow>
      (\<exists>e'. dbfs_read_GET pfetch decode parse host token path_param = Some (Proxy_reply 404 e'))"
    by (auto simp: dbfs_read_GET_def Let_def read_pages_first_404)
  show ?thesis
    using 1 dbfsReadJson_404 [of fetch decode parse path b] 3
      dbfsRead_404 [of fetch decode parse path b] 5 6 7
    by (intro conjI) (assumption+)
qed

lemma example_C:
  "example_store ''C'' = Inr (Response 200 [] (Some \<lparr>data = Some ''eA=='', bytes_read = Some 1\<rparr>))"
  by (simp add: example_store_def)

theorem malformed_artifact_witness:
  "dbfsReadJson example_store example_decode example_parse ''C''
     = Inr (Failed 502 ''Artifact is not valid JSON at C'')
   \<and> dbfsRead example_store example_decode example_parse ''C''
     = Inr (Failed 500 ''Failed to parse JSON'')
   \<and> dbfsReadJson example_store example_decode example_parse ''A''
     = Inr (Failed 404 ''RESOURCE_DOES_NOT_EXIST'')"
proof -
  note t = malformed_artifact [of example_store "''C''"
      "Response 200 [] (Some \<lparr>data = Some ''eA=='', bytes_read = Some 1\<rparr>)"
      "\<lparr>data = Some ''eA=='', bytes_read = Some 1\<rparr>" example_parse example_decode _ "''eA==''"]
  note u = malformed_artifact [of example_store "''A''" _ _ example_parse example_decode
      "''RESOURCE_DOES_NOT_EXIST''"]
  have a: "example_store ''A'' = Inr (Response 404 ''RESOURCE_DOES_NOT_EXIST'' None)"
    by (simp add: example_store_def)
  from t have 1: "dbfsReadJson example_store example_decode example_parse ''C''
     = Inr (Failed 502 ''Artifact is not valid JSON at C'')"
    by (simp add: example_C ok_def example_decode_def example_parse_def)
  from t have 2: "dbfsRead example_store example_decode example_parse ''C''
     = Inr (Failed 500 ''Failed to parse JSON'')"
    by (simp add: example_C ok_def example_decode_def example_parse_def)
  from u have 3: "dbfsReadJson example_store example_decode example_parse ''A''
     = Inr (Failed 404 ''RESOURCE_DOES_NOT_EXIST'')"
    by (simp add: a)
  show ?thesis using 1 2 3 by blast
qed

text \<open>
  The claim as stated fails for the \<open>dbfs-read\<close> route: the object at \<open>C\<close> is read, its content
  \<open>x\<close> does not parse, and the route answers with status 200 and the text, not with an error.
\<close>

theorem dbfs_read_unparseable_counterexample:
  "example_parse (example_decode ''eA=='') = None
   \<and> dbfs_read_GET example_paged_store example_decode example_parse
        (Some ''host'') (Some ''token'') (Some ''C'')
       = Some (Proxy_reply 200 (Text_kind ''x'' ''C''))"
proof -
  have f: "fetchWithRetry (example_paged_store ''C'' 0) 0 3
             = Inr (Response 200 [] (Some \<lparr>data = Some ''eA=='', bytes_read = Some 1\<rparr>))"
    by (subst fetchWithRetry.simps) (simp add: example_paged_store_def example_C ok_def)
  have r: "read_pages (example_paged_store ''C'') 0 [] = Some (Complete ''eA=='')"
    by (subst read_pages.simps) (simp add: f ok_def CHUNK_def)
  show ?thesis
    by (simp add: dbfs_read_GET_def Let_def falsy_def dbfsPath_of_def r
        example_decode_def example_parse_def)
qed


section \<open>Theorems: absent severities in the category breakdown\<close>

text \<open>
  Claim C10. A finding without a severity raises the counter of severity 3 of its category
  and leaves the overall counters as they are. So the counters of the categories sum to the
  overall counters plus the number of findings without a severity, which is more than the
  overall counters as soon as there is such a finding.
\<close>

theorem absent_severity_counted_as_missing:
  "category_sum fs = overall_sum fs + absent_count fs
   \<and> (absent_count fs > 0 \<longrightarrow> category_sum fs > overall_sum fs)
   \<and> (severity r = Absent \<longrightarrow>
        group_count (griGroups (fs @ [r])) (category r) ''3''
          = group_count (griGroups fs) (category r) ''3'' + 1
        \<and> severityCounts (fs @ [r]) = severityCounts fs)"
proof -
  have a: "category_sum fs = overall_sum fs + absent_count fs"
    by (rule category_sum_split)
  have b: "severity r = Absent \<Longrightarrow>
        group_count (griGroups (fs @ [r])) (category r) ''3''
          = group_count (griGroups fs) (category r) ''3'' + 1"
    by (simp add: griGroups_def griGroups_step_def key_severity_def group_count_bump_group)
  have c: "severity r = Absent \<Longrightarrow> severityCounts (fs @ [r]) = severityCounts fs"
    by (simp add: severityCounts_def severityCounts_step_def String_severity_def
        keys_foldl_severityCounts_step zero_counts_def)
  show ?thesis using a b c by simp
qed

theorem absent_severity_counted_as_missing_witness:
  "absent_count example_findings > 0
   \<and> category_sum example_findings = 2 \<and> overall_sum example_findings = 1
   \<and> group_count (griGroups example_findings) ''GRI 305'' ''3'' = 2"
proof -
  have a: "absent_count example_findings = 1"
    by (simp add: absent_count_def example_findings_def)
  have o: "overall_sum example_findings = 1"
    by (simp add: overall_sum_def four_sum_def count_of_def severityCounts_def
        severityCounts_step_def String_severity_def zero_counts_def example_findings_def)
  have g: "group_count (griGroups example_findings) ''GRI 305'' ''3'' = 2"
    by (simp add: griGroups_def griGroups_step_def category_def match_here_def
        digits_then_sep_def is_digit_def digit_chars_def match_leading_def key_severity_def
        zero_counts_def group_count_def count_of_def example_findings_def)
  from absent_severity_counted_as_missing [of example_findings] a o g show ?thesis by simp
qed


end
